theory Spec2Isabelle
  imports Complex_Main "HOL-Library.Word"
begin

section \<open>Failures\<close>

text \<open>
  The ways in which the modelled functions of wfmash stop without returning a value:
  \<^verbatim>\<open>exit(n)\<close>, a failing \<^verbatim>\<open>assert\<close> (the model takes assertions as compiled in),
  an exception of the standard library that nothing catches, and behaviour that C++
  leaves undefined (an out-of-bounds read, a floating-point value converted to an
  integer type that cannot hold it).
\<close>

datatype failure =
    Exit int
  | AssertionFailed
  | InvalidArgument
  | OutOfRange
  | UndefinedBehaviour

definition and_then :: "failure + 'a \<Rightarrow> ('a \<Rightarrow> failure + 'b) \<Rightarrow> failure + 'b" where
  "and_then m f = (case m of Inl e \<Rightarrow> Inl e | Inr x \<Rightarrow> f x)"

section \<open>Characters, digits and numbers of the C++ library\<close>

definition isdigit :: "char \<Rightarrow> bool" where
  "isdigit c = (c \<in> set ''0123456789'')"

definition isspace :: "char \<Rightarrow> bool" where
  "isspace c = (c \<in> set [CHR '' '', CHR 0x09, CHR 0x0A, CHR 0x0B, CHR 0x0C, CHR 0x0D])"

definition digits_value :: "string \<Rightarrow> nat" where
  "digits_value ds = foldl (\<lambda>a c. 10 * a + (of_char c - 48)) 0 ds"

text \<open>Number of binary digits of a natural number.\<close>

fun bit_length :: "nat \<Rightarrow> nat" where
  "bit_length n = (if n = 0 then 0 else Suc (bit_length (n div 2)))"

declare bit_length.simps [simp del]

definition pow2 :: "int \<Rightarrow> real" where
  "pow2 e = (if 0 \<le> e then 2 ^ nat e else 1 / 2 ^ nat (- e))"

text \<open>For \<open>q > 0\<close>, the exponent \<open>e\<close> with \<open>2^e \<le> q < 2^(e+1)\<close>.\<close>

definition ilog2 :: "real \<Rightarrow> int" where
  "ilog2 q = (if 1 \<le> q then int (bit_length (nat \<lfloor>q\<rfloor>)) - 1
              else - int (bit_length (nat (\<lceil>1 / q\<rceil> - 1))))"

definition round_half_even :: "real \<Rightarrow> int" where
  "round_half_even x =
     (let m = \<lfloor>x\<rfloor>; d = x - of_int m
      in if d < 1 / 2 then m else if 1 / 2 < d then m + 1 else if even m then m else m + 1)"

text \<open>
  IEEE 754 rounding to nearest, ties to even, of a non-negative real number to a binary
  format with \<open>p\<close> significand bits whose smallest quantum is \<open>2^emin\<close>
  (binary32: \<open>p = 24\<close>, \<open>emin = -149\<close>; binary64: \<open>p = 53\<close>, \<open>emin = -1074\<close>).
  Floats and doubles are kept as the real numbers they denote.
\<close>

definition round_binary :: "nat \<Rightarrow> int \<Rightarrow> real \<Rightarrow> real" where
  "round_binary p emin q =
     (if q = 0 then 0
      else (let qe = max (ilog2 q - int p + 1) emin
            in of_int (round_half_even (q / pow2 qe)) * pow2 qe))"

text \<open>
  \<^verbatim>\<open>std::stof\<close> on a string of digits with an optional point (the only strings
  \<^verbatim>\<open>handy_parameter\<close> passes to it): no digit at all is \<^verbatim>\<open>std::invalid_argument\<close>;
  a value that rounds beyond the largest float, or a subnormal result that is not exact, is
  reported by \<^verbatim>\<open>strtof\<close> as \<^verbatim>\<open>ERANGE\<close>, which \<^verbatim>\<open>std::stof\<close> throws as
  \<^verbatim>\<open>std::out_of_range\<close>.
\<close>

definition stof :: "string \<Rightarrow> failure + real" where
  "stof s =
     (let ip = takeWhile isdigit s;
          r = dropWhile isdigit s;
          fp = (case r of [] \<Rightarrow> [] | c # r' \<Rightarrow> if c = CHR ''.'' then takeWhile isdigit r' else [])
      in if ip = [] \<and> fp = [] then Inl InvalidArgument
         else (let q = of_nat (digits_value (ip @ fp)) / 10 ^ length fp;
                   f = round_binary 24 (- 149) q
               in if 2 ^ 128 \<le> f then Inl OutOfRange
                  else if q < pow2 (- 126) \<and> f \<noteq> q then Inl OutOfRange
                  else Inr f))"

text \<open>
  Names for what \<^verbatim>\<open>std::stof\<close> computes on its way: the digits before the point, the
  digits after it, the decimal number that the two denote, and the float nearest to a real
  number (binary32, ties to even).
\<close>

definition int_digits :: "string \<Rightarrow> string" where
  "int_digits s = takeWhile isdigit s"

definition frac_digits :: "string \<Rightarrow> string" where
  "frac_digits s =
     (case dropWhile isdigit s of
        [] \<Rightarrow> []
      | c # r \<Rightarrow> if c = CHR ''.'' then takeWhile isdigit r else [])"

definition decimal_value :: "string \<Rightarrow> real" where
  "decimal_value s =
     of_nat (digits_value (int_digits s @ frac_digits s)) / 10 ^ length (frac_digits s)"

definition nearest_float :: "real \<Rightarrow> real" where
  "nearest_float q = round_binary 24 (- 149) q"

text \<open>
  The cast \<^verbatim>\<open>(int)\<close> of a double: truncation towards zero; undefined when the truncated
  value is not a 32-bit signed integer.
\<close>

definition int_cast :: "real \<Rightarrow> failure + int" where
  "int_cast d =
     (let t = (if 0 \<le> d then \<lfloor>d\<rfloor> else \<lceil>d\<rceil>)
      in if - (2 ^ 31) \<le> t \<and> t < 2 ^ 31 then Inr t else Inl UndefinedBehaviour)"

section \<open>\<^verbatim>\<open>handy_parameter\<close> (parse\_args.hpp, lines 32--52)\<close>

definition is_a_float :: "string \<Rightarrow> bool" where
  "is_a_float s =
     (s \<noteq> [] \<and> list_all (\<lambda>c. c \<in> set ''0123456789.'') s \<and> count_list s CHR ''.'' < 2)"

text \<open>The exponent selected by the last character of the argument (lines 39--48).\<close>

definition suffix_exp :: "char \<Rightarrow> nat" where
  "suffix_exp c =
     (if c = CHR ''k'' \<or> c = CHR ''K'' then 3
      else if c = CHR ''m'' \<or> c = CHR ''M'' then 6
      else if c = CHR ''g'' \<or> c = CHR ''G'' then 9
      else 0)"

text \<open>
  The argument without its suffix: \<^verbatim>\<open>value.substr(0, str_len)\<close>, where \<^verbatim>\<open>str_len\<close>
  is the length, decremented when the last character is a suffix.
\<close>

definition numeric_part :: "string \<Rightarrow> string" where
  "numeric_part v = take (if suffix_exp (last v) = 0 then length v else length v - 1) v"

text \<open>
  \<^verbatim>\<open>value[str_len-1]\<close> on the empty string reads index \<open>2^64 - 1\<close>: undefined.
  \<^verbatim>\<open>stof(tmp) * pow(10, exp)\<close> is a product of doubles, converted by \<^verbatim>\<open>(int)\<close> and
  returned as \<^verbatim>\<open>int64_t\<close>.
\<close>

definition handy_parameter :: "string \<Rightarrow> failure + int" where
  "handy_parameter v =
     (if v = [] then Inl UndefinedBehaviour
      else if is_a_float (numeric_part v)
           then and_then (stof (numeric_part v))
                  (\<lambda>f. int_cast (round_binary 53 (- 1074) (f * 10 ^ suffix_exp (last v))))
           else Inr (- 1))"

section \<open>\<^verbatim>\<open>parse_args\<close> (parse\_args.hpp, lines 54--667)\<close>

text \<open>
  \<^verbatim>\<open>std::stoi\<close>: leading white space, an optional sign, then decimal digits; no digit is
  \<^verbatim>\<open>std::invalid_argument\<close>, a value outside \<^verbatim>\<open>int\<close> is \<^verbatim>\<open>std::out_of_range\<close>.
\<close>

definition stoi :: "string \<Rightarrow> failure + int" where
  "stoi s =
     (let t = dropWhile isspace s;
          neg = (t \<noteq> [] \<and> hd t = CHR ''-'');
          u = (if t \<noteq> [] \<and> (hd t = CHR ''-'' \<or> hd t = CHR ''+'') then tl t else t);
          ds = takeWhile isdigit u
      in if ds = [] then Inl InvalidArgument
         else (let n = (if neg then - int (digits_value ds) else int (digits_value ds))
               in if - (2 ^ 31) \<le> n \<and> n < 2 ^ 31 then Inr n else Inl OutOfRange))"

text \<open>
  The command line as \<^verbatim>\<open>parser.ParseCLI(argc, argv)\<close> (line 133) leaves the flags that the
  modelled blocks read: an \<^verbatim>\<open>args::ValueFlag\<close> is \<open>None\<close> when the option was not given and
  \<open>Some v\<close> when it was given with value \<open>v\<close>. The argument parser itself (args.hxx) is not
  among the sources, so its result is the input of the model.
\<close>

record cli_flags =
  approx_mapping_flag :: bool
  segment_length_flag :: "string option"
  max_mapping_length_flag :: "string option"
  index_by_flag :: "string option"
  wfa_params_flag :: "string option"

text \<open>The command line that gives none of these options.\<close>

definition no_options :: cli_flags where
  "no_options =
     \<lparr> approx_mapping_flag = False, segment_length_flag = None,
       max_mapping_length_flag = None, index_by_flag = None, wfa_params_flag = None \<rparr>"

text \<open>
  \<^verbatim>\<open>map_sparsification\<close> (line 212) and \<^verbatim>\<open>wfa_score_params\<close> (line 226) are constructed
  after \<^verbatim>\<open>ParseCLI\<close> has returned, and nothing parses the command line again. When they
  are read they are in the state their constructor leaves them in: not matched, holding a
  value-initialised value. The option \<^verbatim>\<open>--wfa-params\<close> of the command line is matched by the
  flag \<^verbatim>\<open>wfa_params\<close> of line 106, which \<^verbatim>\<open>parse_args\<close> never reads.
\<close>

definition constructed_after_ParseCLI :: "'a option" where
  "constructed_after_ParseCLI = None"

text \<open>\<^verbatim>\<open>args::get\<close>: the value of the flag, value-initialised when it was not matched.\<close>

definition args_get :: "'a \<Rightarrow> 'a option \<Rightarrow> 'a" where
  "args_get dflt flag = (case flag of None \<Rightarrow> dflt | Some v \<Rightarrow> v)"

definition UINT64_MAX :: "64 word" where
  "UINT64_MAX = - 1"

text \<open>
  Conversion of a double to \<^verbatim>\<open>uint64_t\<close>: truncation towards zero; undefined when the
  truncated value is not in \<open>0 .. 2^64 - 1\<close>.
\<close>

definition double_to_uint64 :: "real \<Rightarrow> failure + 64 word" where
  "double_to_uint64 d =
     (let t = (if 0 \<le> d then \<lfloor>d\<rfloor> else \<lceil>d\<rceil>)
      in if 0 \<le> t \<and> t < 2 ^ 64 then Inr (word_of_int t) else Inl UndefinedBehaviour)"

text \<open>
  Lines 213--224. In \<^verbatim>\<open>args::get(map_sparsification) * std::numeric_limits<uint64_t>::max()\<close>
  the integer \<open>2^64 - 1\<close> is converted to double, which rounds it to \<open>2^64\<close>; the product of a
  double with a power of two is exact.
\<close>

definition sparsity_hash_threshold_of :: "real option \<Rightarrow> failure + 64 word" where
  "sparsity_hash_threshold_of map_sparsification =
     (case map_sparsification of
        Some f \<Rightarrow> if f = 1 then Inr UINT64_MAX else double_to_uint64 (f * 2 ^ 64)
      | None \<Rightarrow> Inr UINT64_MAX)"

text \<open>
  Lines 227--246; \<^verbatim>\<open>skch::CommonFunc::split\<close> is not among the sources and is a parameter.
  The result is (mismatch, gap opening, gap extension).
\<close>

definition wfa_scores_of :: "(string \<Rightarrow> char \<Rightarrow> string list) \<Rightarrow> string \<Rightarrow> failure + int \<times> int \<times> int" where
  "wfa_scores_of split v =
     (if v \<noteq> []
      then (let params_str = split v CHR '',''
            in if length params_str \<noteq> 3 then Inl (Exit 1)
               else and_then (stoi (params_str ! 0)) (\<lambda>a.
                    and_then (stoi (params_str ! 1)) (\<lambda>b.
                    and_then (stoi (params_str ! 2)) (\<lambda>c. Inr (a, b, c)))))
      else Inr (2, 3, 1))"

text \<open>
  Lines 273--296. \<open>yeet_approx\<close> is the value of \<^verbatim>\<open>yeet_parameters.approx_mapping\<close> when
  line 287 reads it. The calls of lines 274, 342 and 570 are written
  \<^verbatim>\<open>wfmash::handy_parameter\<close>, a function of \<^verbatim>\<open>common/utils.hpp\<close>, which is not among the
  sources; it is taken to be the function \<^verbatim>\<open>handy_parameter\<close> that lines 32--52 of
  \<^verbatim>\<open>parse_args.hpp\<close> define in the namespace \<^verbatim>\<open>yeet\<close>, with the same name and signature. Only the
  values at the arguments \<^verbatim>\<open>50\<close>, \<^verbatim>\<open>500\<close>, \<^verbatim>\<open>20000\<close> and \<^verbatim>\<open>4G\<close> depend on this.
\<close>

definition segLength_of :: "bool \<Rightarrow> string option \<Rightarrow> failure + int" where
  "segLength_of yeet_approx segment_length =
     (case segment_length of
        Some v \<Rightarrow>
          and_then (handy_parameter v) (\<lambda>s.
            if s \<le> 0 then Inl (Exit 1)
            else if s < 100 then Inl (Exit 1)
            else if \<not> yeet_approx \<and> s > 10000 then Inl (Exit 1)
            else Inr s)
      | None \<Rightarrow> Inr 1000)"

text \<open>Lines 340--356.\<close>

definition max_mapping_length_of :: "bool \<Rightarrow> string option \<Rightarrow> failure + int" where
  "max_mapping_length_of yeet_approx max_mapping_length =
     (case max_mapping_length of
        Some v \<Rightarrow>
          and_then (if v = ''inf'' then Inr (2 ^ 63 - 1) else handy_parameter v) (\<lambda>l.
            if l \<le> 0 then Inl (Exit 1)
            else if \<not> yeet_approx \<and> l > 100000 then Inl (Exit 1)
            else Inr l)
      | None \<Rightarrow> Inr 50000)"

text \<open>Lines 569--578.\<close>

definition index_by_size_of :: "string option \<Rightarrow> failure + 64 word" where
  "index_by_size_of index_by =
     (case index_by of
        Some v \<Rightarrow>
          and_then (handy_parameter v) (\<lambda>index_size.
            if index_size \<le> 0 then Inl (Exit 1) else Inr (word_of_int index_size))
      | None \<Rightarrow> Inr UINT64_MAX)"

text \<open>The fields of the three parameter structures that the modelled blocks assign.\<close>

record parameters =
  sparsity_hash_threshold :: "64 word"
  wfa_mismatch_score :: int
  wfa_gap_opening_score :: int
  wfa_gap_extension_score :: int
  segLength :: int
  max_mapping_length :: int
  wflign_max_len_major :: "64 word"
  wflign_max_len_minor :: "64 word"
  index_by_size :: "64 word"
  approx_mapping :: bool

text \<open>
  The modelled blocks of \<^verbatim>\<open>parse_args\<close> in the order of the source: sparsification
  (212--224), WFA scores (226--246), segment length (273--296), maximum mapping length
  (340--356), their comparison (358--361), the wflign lengths (445--446), the batch size
  (569--578) and the mode (580--584). \<open>yeet_approx_in\<close> is the value of
  \<^verbatim>\<open>yeet_parameters.approx_mapping\<close> that the caller passes in (\<^verbatim>\<open>false\<close> in a
  default-constructed \<^verbatim>\<open>yeet::Parameters\<close>, line 27); the field is assigned from the flag
  \<^verbatim>\<open>-m\<close> only on lines 580--584, after the checks of lines 287 and 347 have read it.
  No other block of the function writes the fields modelled here; the model starts after the
  usage check of lines 148--151 and leaves out the exits of the blocks it does not contain.
\<close>

definition parse_args :: "(string \<Rightarrow> char \<Rightarrow> string list) \<Rightarrow> bool \<Rightarrow> cli_flags \<Rightarrow> failure + parameters" where
  "parse_args split yeet_approx_in flags =
     and_then (sparsity_hash_threshold_of constructed_after_ParseCLI) (\<lambda>threshold.
     and_then (wfa_scores_of split (args_get [] constructed_after_ParseCLI)) (\<lambda>scores.
     and_then (segLength_of yeet_approx_in (segment_length_flag flags)) (\<lambda>s.
     and_then (max_mapping_length_of yeet_approx_in (max_mapping_length_flag flags)) (\<lambda>l.
     if s \<ge> l then Inl (Exit 1)
     else and_then (index_by_size_of (index_by_flag flags)) (\<lambda>index_size.
       Inr \<lparr> sparsity_hash_threshold = threshold,
             wfa_mismatch_score = fst scores,
             wfa_gap_opening_score = fst (snd scores),
             wfa_gap_extension_score = snd (snd scores),
             segLength = s,
             max_mapping_length = l,
             wflign_max_len_major = word_of_int (s * 512),
             wflign_max_len_minor = word_of_int (s * 128),
             index_by_size = index_size,
             approx_mapping = approx_mapping_flag flags \<rparr>)))))"

text \<open>What \<^verbatim>\<open>parse_args\<close> computes when none of the options is given.\<close>

definition default_parameters :: parameters where
  "default_parameters =
     \<lparr> sparsity_hash_threshold = UINT64_MAX,
       wfa_mismatch_score = 2, wfa_gap_opening_score = 3, wfa_gap_extension_score = 1,
       segLength = 1000, max_mapping_length = 50000,
       wflign_max_len_major = 512000, wflign_max_len_minor = 128000,
       index_by_size = UINT64_MAX, approx_mapping = False \<rparr>"

section \<open>\<^verbatim>\<open>parseMashmapRow\<close> and the counting pass (computeAlignments.hpp)\<close>

datatype strnd = FWD | REV

text \<open>
  \<^verbatim>\<open>MappingBoundaryRow\<close> (align\_types.hpp, not among the sources): the fields that
  \<^verbatim>\<open>parseMashmapRow\<close> assigns. The positions are \<^verbatim>\<open>skch::offset_t\<close>, a 32-bit integer
  (line 226); the identity is a \<^verbatim>\<open>float\<close>, kept abstract as \<open>'f\<close>.
\<close>

record 'f MappingBoundaryRow =
  qId :: string
  qStartPos :: int
  qEndPos :: int
  strand :: strnd
  refId :: string
  rStartPos :: int
  rEndPos :: int
  mashmap_estimated_identity :: 'f

text \<open>
  \<^verbatim>\<open>while (ss >> word) tokens.push_back(word)\<close>: the maximal runs of characters that are not
  white space. \<open>w\<close> is the word read so far.
\<close>

fun tokenize :: "string \<Rightarrow> string \<Rightarrow> string list" where
  "tokenize w [] = (if w = [] then [] else [w])"
| "tokenize w (c # cs) =
     (if isspace c then (if w = [] then tokenize [] cs else w # tokenize [] cs)
      else tokenize (w @ [c]) cs)"

declare tokenize.simps [simp del]

text \<open>
  \<^verbatim>\<open>tokens[i]\<close> of a \<^verbatim>\<open>std::vector\<close>: no bounds check, an index beyond the size is
  undefined behaviour.
\<close>

definition vector_at :: "'a list \<Rightarrow> nat \<Rightarrow> failure + 'a" where
  "vector_at xs i = (if i < length xs then Inr (xs ! i) else Inl UndefinedBehaviour)"

text \<open>
  Lines 111--140. \<open>mm_id_of\<close> stands for lines 125--127, which compute the identity from
  \<^verbatim>\<open>tokens[12]\<close> with \<^verbatim>\<open>skch::CommonFunc::split\<close>, \<^verbatim>\<open>wfmash::is_a_number\<close> and
  \<^verbatim>\<open>skch::fixed::percentage_identity\<close>, none of which is among the sources.
\<close>

definition parseMashmapRow :: "(string \<Rightarrow> failure + 'f) \<Rightarrow> string \<Rightarrow> failure + 'f MappingBoundaryRow" where
  "parseMashmapRow mm_id_of mappingRecordLine =
     (let tokens = tokenize [] mappingRecordLine
      in if \<not> 9 \<le> length tokens then Inl AssertionFailed
         else and_then (vector_at tokens 12) (\<lambda>t12.
              and_then (mm_id_of t12) (\<lambda>mm_id.
              and_then (vector_at tokens 0) (\<lambda>t0.
              and_then (and_then (vector_at tokens 2) stoi) (\<lambda>qs.
              and_then (and_then (vector_at tokens 3) stoi) (\<lambda>qe.
              and_then (vector_at tokens 4) (\<lambda>t4.
              and_then (vector_at tokens 5) (\<lambda>t5.
              and_then (and_then (vector_at tokens 7) stoi) (\<lambda>rs.
              and_then (and_then (vector_at tokens 8) stoi) (\<lambda>re.
                Inr \<lparr> qId = t0, qStartPos = qs, qEndPos = qe,
                      strand = (if t4 = ''+'' then FWD else REV),
                      refId = t5, rStartPos = rs, rEndPos = re,
                      mashmap_estimated_identity = mm_id \<rparr>))))))))))"

text \<open>Subtraction of two \<^verbatim>\<open>int\<close>s: signed overflow is undefined.\<close>

definition int_sub :: "int \<Rightarrow> int \<Rightarrow> failure + int" where
  "int_sub a b =
     (if - (2 ^ 31) \<le> a - b \<and> a - b < 2 ^ 31 then Inr (a - b) else Inl UndefinedBehaviour)"

text \<open>
  Lines 167--179: the first pass over the lines of the mapping file, which adds up the
  query lengths in the \<^verbatim>\<open>uint64_t\<close> \<^verbatim>\<open>total_alignment_length\<close> (\<open>acc\<close>). It runs before the
  queues, the output stream and the threads exist.
\<close>

fun count_alignment_length :: "(string \<Rightarrow> failure + 'f) \<Rightarrow> string list \<Rightarrow> 64 word \<Rightarrow> failure + 64 word" where
  "count_alignment_length mm_id_of [] acc = Inr acc"
| "count_alignment_length mm_id_of (mappingRecordLine # rest) acc =
     (if mappingRecordLine \<noteq> []
      then and_then (parseMashmapRow mm_id_of mappingRecordLine) (\<lambda>currentRecord.
           and_then (int_sub (qEndPos currentRecord) (qStartPos currentRecord)) (\<lambda>d.
             count_alignment_length mm_id_of rest (acc + word_of_int d)))
      else count_alignment_length mm_id_of rest acc)"

section \<open>The padding of \<^verbatim>\<open>doAlignment\<close> (computeAlignments.hpp, lines 435--477)\<close>

text \<open>Conversion of a signed integer to \<^verbatim>\<open>uint64_t\<close>, and of the result back to \<^verbatim>\<open>int64_t\<close>.\<close>

definition to_uint64 :: "int \<Rightarrow> int" where
  "to_uint64 x = x mod 2 ^ 64"

definition to_int64 :: "int \<Rightarrow> int" where
  "to_int64 x = (x + 2 ^ 63) mod 2 ^ 64 - 2 ^ 63"

text \<open>
  Lines 441 and 442. \<open>max_len_minor\<close> is \<^verbatim>\<open>param.wflign_max_len_minor\<close>, a \<^verbatim>\<open>uint64_t\<close>
  (as in the signatures of wflign\_patch.hpp), so both comparisons are unsigned;
  \<open>ref_size\<close> is the \<^verbatim>\<open>int64_t\<close> length of the target sequence.
\<close>

definition head_padding :: "int \<Rightarrow> int \<Rightarrow> int" where
  "head_padding max_len_minor rStart =
     (if to_uint64 rStart \<ge> max_len_minor then max_len_minor else to_uint64 rStart)"

definition tail_padding :: "int \<Rightarrow> int \<Rightarrow> int \<Rightarrow> int" where
  "tail_padding max_len_minor ref_size rEnd =
     (if to_uint64 (ref_size - rEnd) \<ge> max_len_minor then max_len_minor
      else to_uint64 (ref_size - rEnd))"

text \<open>
  What \<^verbatim>\<open>doAlignment\<close> hands to the aligner: the bounds passed to
  \<^verbatim>\<open>faidx_fetch_seq64\<close> (lines 445--450), the shift of \<^verbatim>\<open>ref_seq\<close> (line 459),
  \<^verbatim>\<open>refLen\<close> (line 461), and the start and length of the query region (lines 464--467).
\<close>

record alignment_regions =
  ref_fetch_begin :: int
  ref_fetch_end :: int
  ref_seq_shift :: int
  refLen :: int
  query_begin :: int
  queryLen :: int

definition doAlignment_regions :: "int \<Rightarrow> int \<Rightarrow> 'f MappingBoundaryRow \<Rightarrow> failure + alignment_regions" where
  "doAlignment_regions max_len_minor ref_size currentRecord =
     (let hp = head_padding max_len_minor (rStartPos currentRecord);
          tp = tail_padding max_len_minor ref_size (rEndPos currentRecord)
      in and_then (int_sub (rEndPos currentRecord) (rStartPos currentRecord)) (\<lambda>rl.
         and_then (int_sub (qEndPos currentRecord) (qStartPos currentRecord)) (\<lambda>ql.
           Inr \<lparr> ref_fetch_begin = to_int64 (to_uint64 (to_uint64 (rStartPos currentRecord) - hp)),
                 ref_fetch_end = to_int64 (to_uint64 (to_uint64 (rEndPos currentRecord) + tp)),
                 ref_seq_shift = hp,
                 refLen = rl,
                 query_begin = qStartPos currentRecord,
                 queryLen = ql \<rparr>)))"

section \<open>The alignment pipeline of \<^verbatim>\<open>computeAlignments\<close> (lines 181--412)\<close>

text \<open>
  Line 58 and line 60: both queues are \<^verbatim>\<open>atomic_queue::AtomicQueue<T*, 2 << 16>\<close>.
\<close>

definition queue_capacity :: nat where
  "queue_capacity = push_bit 16 2"

text \<open>
  The points at which a worker (lines 334--380) and the writer (lines 292--306) can be
  between two accesses to shared data. Every access to a queue or to an atomic flag is one
  step; the threads interleave between the steps.
  A worker: before \<^verbatim>\<open>is_working.store(true)\<close>; at the head of the loop, before
  \<^verbatim>\<open>try_pop\<close>; after a \<^verbatim>\<open>try_pop\<close> that found nothing, before \<^verbatim>\<open>reader_done.load()\<close>;
  holding a record; after \<^verbatim>\<open>break\<close>, before \<^verbatim>\<open>is_working.store(false)\<close>; finished.
  The writer: at the head of the loop; inside \<^verbatim>\<open>still_working\<close>, before the load of
  \<^verbatim>\<open>working[i]\<close>; finished.
\<close>

datatype 'r worker_pc = W_Start | W_Loop | W_PopFailed | W_Got 'r | W_Break | W_Done

datatype writer_pc = Wr_Loop | Wr_StillWorking nat | Wr_Done

record 'r pipeline =
  input :: "'r list"
  seq_queue :: "'r list"
  paf_queue :: "string list"
  reader_done :: bool
  working :: "bool list"
  workers :: "'r worker_pc list"
  writer :: writer_pc
  outstrm :: "string list"

datatype thread = Reader | Worker nat | Writer

text \<open>
  Modelled from the spec: \<^verbatim>\<open>atomic_queue::AtomicQueue\<close> (common/atomic\_queue/atomic\_queue.h is
  not among the sources) is a first-in first-out queue of fixed capacity; \<^verbatim>\<open>push\<close> blocks
  while the queue is full, \<^verbatim>\<open>try_pop\<close> takes the oldest element or reports that there is
  none. A thread blocked in \<^verbatim>\<open>push\<close> takes no step: the state stays as it is.

  The reader (lines 201--277) pushes its work units one by one and then stores
  \<^verbatim>\<open>reader_done\<close>; \<open>input\<close> holds the work units it has still to push.
\<close>

definition reader_step :: "'r pipeline \<Rightarrow> 'r pipeline" where
  "reader_step s =
     (case input s of
        [] \<Rightarrow> s\<lparr>reader_done := True\<rparr>
      | q # rest \<Rightarrow>
          if length (seq_queue s) < queue_capacity
          then s\<lparr>input := rest, seq_queue := seq_queue s @ [q]\<rparr>
          else s)"

text \<open>
  \<open>doAlignment\<close> is the text that \<^verbatim>\<open>doAlignment\<close> writes for a record; an empty text is
  not pushed (lines 358--363).
\<close>

definition worker_step :: "('r \<Rightarrow> string) \<Rightarrow> nat \<Rightarrow> 'r pipeline \<Rightarrow> 'r pipeline" where
  "worker_step doAlignment tid s =
     (if tid < length (workers s)
      then (case workers s ! tid of
              W_Start \<Rightarrow>
                s\<lparr>working := (working s)[tid := True], workers := (workers s)[tid := W_Loop]\<rparr>
            | W_Loop \<Rightarrow>
                (case seq_queue s of
                   [] \<Rightarrow> s\<lparr>workers := (workers s)[tid := W_PopFailed]\<rparr>
                 | rec # rest \<Rightarrow> s\<lparr>seq_queue := rest, workers := (workers s)[tid := W_Got rec]\<rparr>)
            | W_PopFailed \<Rightarrow>
                s\<lparr>workers := (workers s)[tid := (if reader_done s then W_Break else W_Loop)]\<rparr>
            | W_Got rec \<Rightarrow>
                if doAlignment rec = [] then s\<lparr>workers := (workers s)[tid := W_Loop]\<rparr>
                else if length (paf_queue s) < queue_capacity
                then s\<lparr>paf_queue := paf_queue s @ [doAlignment rec],
                       workers := (workers s)[tid := W_Loop]\<rparr>
                else s
            | W_Break \<Rightarrow>
                s\<lparr>working := (working s)[tid := False], workers := (workers s)[tid := W_Done]\<rparr>
            | W_Done \<Rightarrow> s)
      else s)"

definition writer_step :: "'r pipeline \<Rightarrow> 'r pipeline" where
  "writer_step s =
     (case writer s of
        Wr_Loop \<Rightarrow>
          (case paf_queue s of
             [] \<Rightarrow> s\<lparr>writer := Wr_StillWorking 0\<rparr>
           | paf_lines # rest \<Rightarrow> s\<lparr>paf_queue := rest, outstrm := outstrm s @ [paf_lines]\<rparr>)
      | Wr_StillWorking i \<Rightarrow>
          if i < length (working s)
          then (if working s ! i then s\<lparr>writer := Wr_Loop\<rparr>
                else s\<lparr>writer := Wr_StillWorking (Suc i)\<rparr>)
          else s\<lparr>writer := Wr_Done\<rparr>
      | Wr_Done \<Rightarrow> s)"

fun step :: "('r \<Rightarrow> string) \<Rightarrow> 'r pipeline \<Rightarrow> thread \<Rightarrow> 'r pipeline" where
  "step doAlignment s Reader = reader_step s"
| "step doAlignment s (Worker tid) = worker_step doAlignment tid s"
| "step doAlignment s Writer = writer_step s"

text \<open>A schedule lists the threads in the order in which they take their steps.\<close>

definition run :: "('r \<Rightarrow> string) \<Rightarrow> thread list \<Rightarrow> 'r pipeline \<Rightarrow> 'r pipeline" where
  "run doAlignment schedule s = foldl (step doAlignment) s schedule"

text \<open>
  The state in which the threads are launched (lines 184--198 and 383--396): empty queues,
  \<^verbatim>\<open>reader_done\<close> false, every \<^verbatim>\<open>working\<close> flag true.
\<close>

definition launch :: "'r list \<Rightarrow> nat \<Rightarrow> 'r pipeline" where
  "launch work nthreads =
     \<lparr> input = work, seq_queue = [], paf_queue = [], reader_done = False,
       working = replicate nthreads True, workers = replicate nthreads W_Start,
       writer = Wr_Loop, outstrm = [] \<rparr>"

text \<open>
  \<^verbatim>\<open>computeAlignments\<close>: the counting pass over the mapping file, then the pipeline. The
  result is the failure that ended the process, if any, and what has been written to the
  output stream. \<open>work\<close> are the work units the reader enqueues for the given mapping file and
  query sequences.
\<close>

definition computeAlignments ::
  "(string \<Rightarrow> failure + 'f) \<Rightarrow> ('r \<Rightarrow> string) \<Rightarrow> nat \<Rightarrow> string list \<Rightarrow> 'r list \<Rightarrow> thread list
     \<Rightarrow> failure option \<times> string list" where
  "computeAlignments mm_id_of doAlignment nthreads mapping_lines work schedule =
     (case count_alignment_length mm_id_of mapping_lines 0 of
        Inl e \<Rightarrow> (Some e, [])
      | Inr total_alignment_length \<Rightarrow>
          (None, outstrm (run doAlignment schedule (launch work nthreads))))"

text \<open>
  What the flags guarantee at shutdown, in every reachable state: a \<^verbatim>\<open>working\<close> flag is set
  exactly as long as its worker has not finished; a worker that has left its loop has read
  \<^verbatim>\<open>reader_done\<close> as true; the flags \<^verbatim>\<open>still_working\<close> has passed belong to finished workers,
  and so do all flags once the writer has left its loop.
\<close>

definition shutdown_inv :: "'r pipeline \<Rightarrow> bool" where
  "shutdown_inv s =
     (length (working s) = length (workers s)
      \<and> (\<forall>t < length (workers s). working s ! t = (workers s ! t \<noteq> W_Done))
      \<and> (\<forall>t < length (workers s).
            workers s ! t = W_Break \<or> workers s ! t = W_Done \<longrightarrow> reader_done s)
      \<and> (\<forall>i. writer s = Wr_StillWorking i
            \<longrightarrow> (\<forall>t < i. t < length (workers s) \<longrightarrow> workers s ! t = W_Done))
      \<and> (writer s = Wr_Done \<longrightarrow> (\<forall>t < length (workers s). workers s ! t = W_Done)))"

section \<open>Properties of the helpers\<close>

lemma and_then_Inr [simp]: "and_then (Inr x) f = f x"
  by (simp add: and_then_def)

lemma and_then_Inl [simp]: "and_then (Inl e) f = Inl e"
  by (simp add: and_then_def)

section \<open>Exactness of the rounding on small integers\<close>

lemma bit_length_le: "n < 2 ^ k \<Longrightarrow> bit_length n \<le> k"
proof (induction k arbitrary: n)
  case 0
  then show ?case by (simp add: bit_length.simps)
next
  case (Suc k)
  show ?case
  proof (cases "n = 0")
    case True
    then show ?thesis by (simp add: bit_length.simps)
  next
    case False
    from Suc.prems have "n div 2 < 2 ^ k" by simp
    then have "bit_length (n div 2) \<le> k" by (rule Suc.IH)
    with False show ?thesis by (subst bit_length.simps) simp
  qed
qed

lemma round_half_even_of_int: "round_half_even (of_int k) = k"
  by (simp add: round_half_even_def)

lemma pow2_nonpos: "e \<le> 0 \<Longrightarrow> pow2 e = 1 / 2 ^ nat (- e)"
  by (cases "e = 0") (simp_all add: pow2_def)

lemma round_binary_of_nat:
  assumes "n < 2 ^ p" and "emin \<le> 0"
  shows "round_binary p emin (of_nat n) = of_nat n"
proof (cases "n = 0")
  case True
  then show ?thesis by (simp add: round_binary_def)
next
  case False
  define qe where "qe = max (ilog2 (of_nat n) - int p + 1) emin"
  define m where "m = nat (- qe)"
  have "bit_length n \<le> p" using assms(1) by (rule bit_length_le)
  moreover have "ilog2 (of_nat n) = int (bit_length n) - 1"
    using False by (simp add: ilog2_def)
  ultimately have "qe \<le> 0" using assms(2) by (simp add: qe_def)
  then have pw: "pow2 qe = 1 / 2 ^ m" unfolding m_def by (rule pow2_nonpos)
  have "real n / pow2 qe = of_int (int n * 2 ^ m)" by (simp add: pw)
  then have "round_half_even (real n / pow2 qe) = int n * 2 ^ m"
    by (simp only: round_half_even_of_int)
  then have "of_int (round_half_even (real n / pow2 qe)) * pow2 qe = real n"
    by (simp add: pw)
  with False show ?thesis by (simp add: round_binary_def Let_def qe_def)
qed


lemma digit_not_suffix: "isdigit c \<Longrightarrow> suffix_exp c = 0"
  by (auto simp: isdigit_def suffix_exp_def)

lemma suffix_exp_pos: "c \<in> set ''kKmMgG'' \<Longrightarrow> suffix_exp c \<noteq> 0"
  by (auto simp: suffix_exp_def)

lemma numeric_part_digits:
  "ds \<noteq> [] \<Longrightarrow> list_all isdigit ds \<Longrightarrow> numeric_part ds = ds"
proof -
  assume "ds \<noteq> []" and "list_all isdigit ds"
  then have "isdigit (last ds)" by (simp add: list_all_iff)
  then show ?thesis by (simp add: numeric_part_def digit_not_suffix)
qed

lemma numeric_part_suffix:
  "c \<in> set ''kKmMgG'' \<Longrightarrow> numeric_part (ds @ [c]) = ds"
  using suffix_exp_pos [of c] by (simp add: numeric_part_def)

lemma isdigit_not_point: "isdigit c \<Longrightarrow> c \<noteq> CHR ''.''"
  by (auto simp: isdigit_def)

lemma isdigit_float_char: "isdigit c \<Longrightarrow> c \<in> set ''0123456789.''"
  unfolding isdigit_def by (simp only: list.set) blast

lemma count_list_digits: "list_all isdigit ds \<Longrightarrow> count_list ds CHR ''.'' = 0"
  by (induction ds) (simp_all add: isdigit_not_point)

lemma is_a_float_digits:
  assumes "ds \<noteq> []" and "list_all isdigit ds"
  shows "is_a_float ds"
proof -
  have "list_all (\<lambda>c. c \<in> set ''0123456789.'') ds"
    using assms(2) unfolding list_all_iff by (blast intro: isdigit_float_char)
  then show ?thesis
    unfolding is_a_float_def using assms by (simp only: count_list_digits) simp
qed

lemma stof_digits:
  assumes "ds \<noteq> []" and "list_all isdigit ds" and "digits_value ds < 2 ^ 24"
  shows "stof ds = Inr (of_nat (digits_value ds))"
proof -
  have tw: "takeWhile isdigit ds = ds" and dw: "dropWhile isdigit ds = []"
    using assms(2) by (simp_all add: list_all_iff)
  have rb: "round_binary 24 (- 149) (of_nat (digits_value ds)) = of_nat (digits_value ds)"
    using assms(3) by (intro round_binary_of_nat) simp_all
  have "real (digits_value ds) < 2 ^ 24"
    using assms(3) by (metis of_nat_less_iff of_nat_numeral of_nat_power)
  then have "\<not> (2 :: real) ^ 128 \<le> real (digits_value ds)" by simp
  then show ?thesis
    using assms(1) by (simp add: stof_def tw dw rb Let_def)
qed

lemma scaled_digits:
  assumes "ds \<noteq> []" and "list_all isdigit ds" and "digits_value ds < 2 ^ 24"
    and "digits_value ds * 10 ^ k < 2 ^ 31"
  shows "and_then (stof ds) (\<lambda>f. int_cast (round_binary 53 (- 1074) (f * 10 ^ k)))
         = Inr (int (digits_value ds * 10 ^ k))"
proof -
  let ?n = "digits_value ds * 10 ^ k"
  have "?n < 2 ^ 53"
    using assms(4) by (rule less_trans) simp
  then have rb: "round_binary 53 (- 1074) (of_nat ?n) = of_nat ?n"
    by (intro round_binary_of_nat) simp_all
  have eq: "real (digits_value ds) * 10 ^ k = real ?n" by simp
  have fl: "\<lfloor>real ?n\<rfloor> = int ?n" by (rule floor_of_nat)
  have "int ?n < 2 ^ 31"
    using assms(4) by (metis of_nat_less_iff of_nat_numeral of_nat_power)
  then have "int_cast (real ?n) = Inr (int ?n)"
    by (simp add: int_cast_def fl del: of_nat_mult of_nat_power)
  then show ?thesis
    by (simp only: stof_digits [OF assms(1-3)] and_then_Inr eq rb)
qed

lemma stof_16777217: "stof ''16777217'' = Inr 16777216"
proof -
  have dv: "digits_value ''16777217'' = 16777217" by (simp add: digits_value_def)
  have il: "ilog2 16777217 = 24" by (simp add: ilog2_def bit_length.simps)
  have rh: "round_half_even (16777217 / 2) = 8388608"
    by (simp add: round_half_even_def Let_def)
  have rb: "round_binary 24 (- 149) 16777217 = 16777216"
    by (simp add: round_binary_def il pow2_def rh)
  show ?thesis
    by (simp add: stof_def isdigit_def dv rb pow2_def Let_def)
qed

lemma stof_0_7: "stof ''0.7'' = Inr (11744051 / 16777216)"
proof -
  have dv: "digits_value ''07'' = 7" by (simp add: digits_value_def)
  have il: "ilog2 (7 / 10) = - 1" by (simp add: ilog2_def bit_length.simps)
  have rh: "round_half_even (58720256 / 5) = 11744051"
    by (simp add: round_half_even_def Let_def)
  have rb: "round_binary 24 (- 149) (7 / 10) = 11744051 / 16777216"
    by (simp add: round_binary_def il pow2_def rh)
  show ?thesis
    by (simp add: stof_def isdigit_def dv rb pow2_def Let_def)
qed

lemma double_product_0_7k:
  "round_binary 53 (- 1074) (11744051 / 16777216 * 10 ^ 3) = 1468006375 / 2097152"
proof -
  have nf: "(11744051 / 16777216 * 10 ^ 3 :: real) = 1468006375 / 2097152" by simp
  have il: "ilog2 (1468006375 / 2097152) = 9" by (simp add: ilog2_def bit_length.simps)
  have rh: "round_half_even (6157265010688000) = 6157265010688000"
    using round_half_even_of_int [of 6157265010688000] by simp
  show ?thesis
    unfolding nf by (simp add: round_binary_def il pow2_def rh)
qed


lemma handy_parameter_digits:
  assumes "ds \<noteq> []" and "list_all isdigit ds" and "digits_value ds < 2 ^ 24"
  shows "handy_parameter ds = Inr (int (digits_value ds))"
proof -
  have "isdigit (last ds)" using assms(1,2) by (simp add: list_all_iff)
  then have se: "suffix_exp (last ds) = 0" by (rule digit_not_suffix)
  have "digits_value ds * 10 ^ 0 < 2 ^ 31"
    using assms(3) by simp
  from scaled_digits [OF assms this] show ?thesis
    unfolding handy_parameter_def numeric_part_digits [OF assms(1,2)] se
    using assms(1) is_a_float_digits [OF assms(1,2)] by simp
qed

lemma handy_parameter_suffixed:
  assumes "ds \<noteq> []" and "list_all isdigit ds" and "digits_value ds < 2 ^ 24"
    and "c \<in> set ''kKmMgG''" and "digits_value ds * 10 ^ suffix_exp c < 2 ^ 31"
  shows "handy_parameter (ds @ [c]) = Inr (int (digits_value ds * 10 ^ suffix_exp c))"
proof -
  from scaled_digits [OF assms(1-3) assms(5)] show ?thesis
    unfolding handy_parameter_def numeric_part_suffix [OF assms(4)]
    using is_a_float_digits [OF assms(1,2)] by simp
qed

lemma handy_parameter_not_float:
  "v \<noteq> [] \<Longrightarrow> \<not> is_a_float (numeric_part v) \<Longrightarrow> handy_parameter v = Inr (- 1)"
  by (simp add: handy_parameter_def)

section \<open>Powers of two and binary logarithms\<close>

lemma pow2_powi: "pow2 e = 2 powi e"
  by (simp add: pow2_def power_int_def power_one_over)

lemma pow2_pos: "0 < pow2 e"
  by (simp add: pow2_powi)

lemma pow2_add: "pow2 (a + b) = pow2 a * pow2 b"
  by (simp add: pow2_powi power_int_add)

lemma pow2_mono: "a \<le> b \<Longrightarrow> pow2 a \<le> pow2 b"
  by (simp add: pow2_powi power_int_increasing)

lemma pow2_nat: "pow2 (int n) = 2 ^ n"
  by (simp add: pow2_def)

lemma pow2_nonneg_exp: "0 \<le> e \<Longrightarrow> pow2 e = of_int (2 ^ nat e)"
  by (simp add: pow2_def)

lemma bit_length_gt: "n < 2 ^ bit_length n"
proof (induction n rule: bit_length.induct)
  case (1 n)
  show ?case
  proof (cases "n = 0")
    case True
    then show ?thesis by simp
  next
    case False
    then have "n div 2 < 2 ^ bit_length (n div 2)" by (rule 1)
    then have "n < 2 * 2 ^ bit_length (n div 2)" by linarith
    with False show ?thesis by (subst bit_length.simps) simp
  qed
qed

lemma bit_length_ge: "2 ^ j \<le> n \<Longrightarrow> j < bit_length n"
proof -
  assume "2 ^ j \<le> n"
  also have "n < 2 ^ bit_length n" by (rule bit_length_gt)
  finally have "(2 :: nat) ^ j < 2 ^ bit_length n" .
  then show ?thesis by simp
qed

lemma bit_length_pos: "0 < n \<Longrightarrow> 0 < bit_length n"
  by (subst bit_length.simps) simp

lemma bit_length_lower: "0 < n \<Longrightarrow> 2 ^ (bit_length n - 1) \<le> n"
proof -
  assume n: "0 < n"
  show ?thesis
  proof (rule ccontr)
    assume "\<not> 2 ^ (bit_length n - 1) \<le> n"
    then have "n < 2 ^ (bit_length n - 1)" by simp
    then have "bit_length n \<le> bit_length n - 1" by (rule bit_length_le)
    with bit_length_pos [OF n] show False by simp
  qed
qed

lemma ilog2_lt:
  assumes "0 < q"
  shows "q < pow2 (ilog2 q + 1)"
proof (cases "1 \<le> q")
  case True
  define n where "n = nat \<lfloor>q\<rfloor>"
  from True have fl: "\<lfloor>q\<rfloor> = int n" by (simp add: n_def)
  have il: "ilog2 q + 1 = int (bit_length n)" using True by (simp add: ilog2_def n_def)
  have "Suc n \<le> 2 ^ bit_length n" using bit_length_gt [of n] by simp
  then have "real (Suc n) \<le> real (2 ^ bit_length n)" by (simp only: of_nat_le_iff)
  then have "real n + 1 \<le> 2 ^ bit_length n" by simp
  moreover have "q < of_int \<lfloor>q\<rfloor> + 1" by linarith
  ultimately have "q < 2 ^ bit_length n" by (simp add: fl)
  then show ?thesis by (simp only: il pow2_nat)
next
  case False
  define n where "n = nat (\<lceil>1 / q\<rceil> - 1)"
  from False assms have big: "1 < 1 / q" by simp
  then have c: "2 \<le> \<lceil>1 / q\<rceil>" by linarith
  have n: "0 < n" unfolding n_def using c by linarith
  have cn: "int n = \<lceil>1 / q\<rceil> - 1" unfolding n_def using c by linarith
  have il: "ilog2 q = - int (bit_length n)" using False by (simp add: ilog2_def n_def)
  note bl = bit_length_pos [OF n]
  have "2 ^ (bit_length n - 1) \<le> n" using n by (rule bit_length_lower)
  then have "real (2 ^ (bit_length n - 1)) \<le> real n" by (simp only: of_nat_le_iff)
  then have "(2 :: real) ^ (bit_length n - 1) \<le> real n" by simp
  also have "real n = of_int (int n)" by simp
  also have "\<dots> = of_int (\<lceil>1 / q\<rceil> - 1)" by (simp only: cn)
  also have "\<dots> < 1 / q" by linarith
  finally have lt: "(2 :: real) ^ (bit_length n - 1) < 1 / q" .
  have "q * 2 ^ (bit_length n - 1) < 1"
    using lt assms by (simp add: field_simps)
  then have "q < 1 / 2 ^ (bit_length n - 1)"
    by (simp add: field_simps)
  moreover have "pow2 (ilog2 q + 1) = 1 / 2 ^ (bit_length n - 1)"
  proof -
    have "ilog2 q + 1 \<le> 0" using bl by (simp add: il)
    then have "pow2 (ilog2 q + 1) = 1 / 2 ^ nat (- (ilog2 q + 1))" by (rule pow2_nonpos)
    moreover have "nat (- (ilog2 q + 1)) = bit_length n - 1" using bl by (simp add: il)
    ultimately show ?thesis by simp
  qed
  ultimately show ?thesis by simp
qed

lemma ilog2_upper:
  assumes "0 < q" and "q < pow2 k"
  shows "ilog2 q < k"
proof (cases "1 \<le> q")
  case True
  have kpos: "0 < k"
  proof (rule ccontr)
    assume "\<not> 0 < k"
    then have "pow2 k \<le> pow2 0" by (intro pow2_mono) simp
    with assms(2) True show False by (simp add: pow2_def)
  qed
  define n where "n = nat \<lfloor>q\<rfloor>"
  from True have fl: "\<lfloor>q\<rfloor> = int n" by (simp add: n_def)
  from kpos have "pow2 k = of_int (2 ^ nat k)" by (intro pow2_nonneg_exp) simp
  with assms(2) have "q < of_int (2 ^ nat k)" by simp
  then have "\<lfloor>q\<rfloor> < 2 ^ nat k" by (simp only: floor_less_iff)
  then have "int n < int (2 ^ nat k)" by (simp add: fl)
  then have "n < 2 ^ nat k" by (simp only: of_nat_less_iff)
  then have "bit_length n \<le> nat k" by (rule bit_length_le)
  moreover have "ilog2 q = int (bit_length n) - 1" using True by (simp add: ilog2_def n_def)
  ultimately show ?thesis using kpos by simp
next
  case False
  define n where "n = nat (\<lceil>1 / q\<rceil> - 1)"
  have il: "ilog2 q = - int (bit_length n)" using False by (simp add: ilog2_def n_def)
  show ?thesis
  proof (cases "0 < k")
    case True
    then show ?thesis by (simp add: il)
  next
    case k: False
    define j where "j = nat (- k)"
    from k have kj: "k = - int j" by (simp add: j_def)
    from k have "pow2 k = 1 / 2 ^ j" unfolding j_def by (intro pow2_nonpos) simp
    with assms(2) have "q < 1 / 2 ^ j" by simp
    then have "q * 2 ^ j < 1" by (simp add: field_simps)
    then have "2 ^ j < 1 / q" using assms(1) by (simp add: field_simps)
    also have "1 / q \<le> of_int \<lceil>1 / q\<rceil>" by linarith
    finally have "real_of_int (2 ^ j) < of_int \<lceil>1 / q\<rceil>" by simp
    then have "2 ^ j < \<lceil>1 / q\<rceil>" by (simp only: of_int_less_iff)
    then have le: "2 ^ j \<le> \<lceil>1 / q\<rceil> - 1" by linarith
    have "(0 :: int) < 2 ^ j" by simp
    with le have "0 \<le> \<lceil>1 / q\<rceil> - 1" by linarith
    then have "int n = \<lceil>1 / q\<rceil> - 1" unfolding n_def by (rule nat_0_le)
    with le have "2 ^ j \<le> int n" by (simp only:)
    then have "int (2 ^ j) \<le> int n" by simp
    then have "2 ^ j \<le> n" by (simp only: of_nat_le_iff)
    then have "j < bit_length n" by (rule bit_length_ge)
    then show ?thesis by (simp add: il kj)
  qed
qed

section \<open>The shape of a rounded value\<close>

lemma round_half_even_bounds:
  assumes "0 \<le> x" and "x < of_int N"
  shows "0 \<le> round_half_even x \<and> round_half_even x \<le> N"
proof -
  from assms(1) have "0 \<le> \<lfloor>x\<rfloor>" by simp
  moreover from assms(2) have "\<lfloor>x\<rfloor> < N" by (simp only: floor_less_iff)
  ultimately show ?thesis by (simp add: round_half_even_def Let_def)
qed

lemma round_binary_exact:
  assumes "0 < M" and "M < 2 ^ p" and "emin \<le> E"
  shows "round_binary p emin (of_int M * pow2 E) = of_int M * pow2 E"
proof -
  define q where "q = real_of_int M * pow2 E"
  define qe where "qe = max (ilog2 q - int p + 1) emin"
  have qpos: "0 < q" using assms(1) pow2_pos [of E] by (simp add: q_def)
  have "real_of_int M < real_of_int (2 ^ p)" using assms(2) by (simp only: of_int_less_iff)
  then have "real_of_int M < pow2 (int p)" by (simp add: pow2_nat)
  then have "real_of_int M * pow2 E < pow2 (int p) * pow2 E"
    using pow2_pos [of E] by (rule mult_strict_right_mono)
  then have "q < pow2 (int p + E)" by (simp only: pow2_add q_def)
  with qpos have "ilog2 q < int p + E" by (rule ilog2_upper)
  with assms(3) have le: "qe \<le> E" by (simp add: qe_def)
  have "pow2 E = pow2 ((E - qe) + qe)" by simp
  then have split: "pow2 E = pow2 (E - qe) * pow2 qe" by (simp only: pow2_add)
  from le have pw: "pow2 (E - qe) = of_int (2 ^ nat (E - qe))" by (intro pow2_nonneg_exp) simp
  have "q / pow2 qe = real_of_int M * pow2 (E - qe)"
    using pow2_pos [of qe] by (simp add: q_def split)
  then have "q / pow2 qe = of_int (M * 2 ^ nat (E - qe))" by (simp add: pw)
  then have "round_half_even (q / pow2 qe) = M * 2 ^ nat (E - qe)"
    by (simp only: round_half_even_of_int)
  then have "of_int (round_half_even (q / pow2 qe)) * pow2 qe
      = real_of_int M * (of_int (2 ^ nat (E - qe)) * pow2 qe)"
    by simp
  also have "\<dots> = real_of_int M * pow2 E" by (simp only: pw [symmetric] split [symmetric])
  finally have "of_int (round_half_even (q / pow2 qe)) * pow2 qe = q" by (simp add: q_def)
  with qpos show ?thesis
    unfolding round_binary_def Let_def q_def [symmetric] qe_def [symmetric] by simp
qed

lemma round_binary_form:
  assumes "0 < q"
  shows "\<exists>m. round_binary p emin q = of_int m * pow2 (max (ilog2 q - int p + 1) emin)
             \<and> 0 \<le> m \<and> m \<le> 2 ^ p"
proof -
  define qe where "qe = max (ilog2 q - int p + 1) emin"
  have "ilog2 q + 1 \<le> qe + int p" by (simp add: qe_def)
  then have "pow2 (ilog2 q + 1) \<le> pow2 (qe + int p)" by (rule pow2_mono)
  with ilog2_lt [OF assms] have "q < pow2 (qe + int p)" by simp
  then have "q < pow2 qe * 2 ^ p" by (simp only: pow2_add pow2_nat)
  then have "q / pow2 qe < 2 ^ p" using pow2_pos [of qe] by (simp add: field_simps)
  then have "q / pow2 qe < real_of_int (2 ^ p)" by simp
  moreover have "0 \<le> q / pow2 qe" using assms pow2_pos [of qe] by simp
  ultimately have "0 \<le> round_half_even (q / pow2 qe) \<and> round_half_even (q / pow2 qe) \<le> 2 ^ p"
    by (intro round_half_even_bounds)
  moreover have "round_binary p emin q = of_int (round_half_even (q / pow2 qe)) * pow2 qe"
    using assms by (simp add: round_binary_def Let_def qe_def)
  ultimately show ?thesis unfolding qe_def by blast
qed

lemma nearest_float_zero: "nearest_float 0 = 0"
  by (simp add: nearest_float_def round_binary_def)

lemma nearest_float_nonneg:
  assumes "0 \<le> q"
  shows "0 \<le> nearest_float q"
proof (cases "q = 0")
  case True
  then show ?thesis by (simp add: nearest_float_zero)
next
  case False
  with assms have "0 < q" by simp
  from round_binary_form [OF this, of 24 "- 149"] obtain m
    where "nearest_float q = of_int m * pow2 (max (ilog2 q - int 24 + 1) (- 149))" and "0 \<le> m"
    unfolding nearest_float_def by blast
  then show ?thesis using pow2_pos [of "max (ilog2 q - int 24 + 1) (- 149)"] by simp
qed

text \<open>
  The product of a float with \<open>10^k\<close>, \<open>k \<le> 9\<close>, has at most \<open>24 + 21\<close> significant bits:
  the double holds it exactly.
\<close>

lemma double_product_exact:
  assumes "0 \<le> q" and "k \<le> 9"
  shows "round_binary 53 (- 1074) (nearest_float q * 10 ^ k) = nearest_float q * 10 ^ k"
proof (cases "nearest_float q = 0")
  case True
  then show ?thesis by (simp add: round_binary_def)
next
  case False
  then have "q \<noteq> 0" using nearest_float_zero by auto
  with assms(1) have qpos: "0 < q" by simp
  define qe where "qe = max (ilog2 q - int 24 + 1) (- 149)"
  from round_binary_form [OF qpos, of 24 "- 149"] obtain m
    where f: "nearest_float q = of_int m * pow2 qe" and m0: "0 \<le> m" and m1: "m \<le> 2 ^ 24"
    unfolding nearest_float_def qe_def by blast
  from False f have "m \<noteq> 0" by auto
  with m0 have mpos: "0 < m" by simp
  have five: "(5 :: int) ^ k \<le> 5 ^ 9" using assms(2) by (intro power_increasing) simp_all
  have "m * 5 ^ k \<le> 2 ^ 24 * 5 ^ 9"
    using m1 five m0 by (intro mult_mono) simp_all
  then have M: "m * 5 ^ k < 2 ^ 53" by simp
  have Mpos: "0 < m * 5 ^ k" using mpos by simp
  have E: "- 1074 \<le> qe + int k" by (simp add: qe_def)
  have "(10 :: real) ^ k = (5 * 2) ^ k" by simp
  then have ten: "(10 :: real) ^ k = 5 ^ k * 2 ^ k" by (simp only: power_mult_distrib)
  have "nearest_float q * 10 ^ k = of_int (m * 5 ^ k) * pow2 (qe + int k)"
    by (simp add: f pow2_add pow2_nat ten)
  with round_binary_exact [OF Mpos M E] show ?thesis by simp
qed

section \<open>What \<^verbatim>\<open>std::stof\<close> and the cast return\<close>

lemma stof_unfold:
  "stof s =
     (if int_digits s = [] \<and> frac_digits s = [] then Inl InvalidArgument
      else if 2 ^ 128 \<le> nearest_float (decimal_value s) then Inl OutOfRange
      else if decimal_value s < pow2 (- 126) \<and> nearest_float (decimal_value s) \<noteq> decimal_value s
           then Inl OutOfRange
      else Inr (nearest_float (decimal_value s)))"
  by (simp only: stof_def int_digits_def frac_digits_def decimal_value_def nearest_float_def Let_def)

lemma float_char_cases:
  assumes "c \<in> set ''0123456789.''"
  shows "isdigit c \<or> c = CHR ''.''"
proof -
  have "''0123456789.'' = ''0123456789'' @ [CHR ''.'']" by simp
  with assms have "c \<in> set (''0123456789'' @ [CHR ''.''])" by (simp only:)
  then have "c \<in> set ''0123456789'' \<or> c \<in> set [CHR ''.'']" by (simp only: set_append Un_iff)
  then show ?thesis
  proof
    assume "c \<in> set ''0123456789''"
    then have "isdigit c" by (simp only: isdigit_def)
    then show ?thesis ..
  next
    assume "c \<in> set [CHR ''.'']"
    then have "c = CHR ''.''" by simp
    then show ?thesis ..
  qed
qed

lemma decimal_has_digit:
  assumes "is_a_float s" and "s \<noteq> ''.''"
  shows "int_digits s \<noteq> [] \<or> frac_digits s \<noteq> []"
proof -
  from assms(1) have ne: "s \<noteq> []" and chars: "list_all (\<lambda>c. c \<in> set ''0123456789.'') s"
    and cnt: "count_list s CHR ''.'' < 2"
    unfolding is_a_float_def by blast+
  from chars have every: "x \<in> set s \<Longrightarrow> isdigit x \<or> x = CHR ''.''" for x
    unfolding list_all_iff using float_char_cases by blast
  from ne obtain c r where s: "s = c # r" by (cases s) auto
  have "isdigit c \<or> c = CHR ''.''" using every [of c] s by simp
  then show ?thesis
  proof
    assume "isdigit c"
    with s show ?thesis by (simp add: int_digits_def)
  next
    assume c: "c = CHR ''.''"
    with s assms(2) obtain d r' where r: "r = d # r'" by (cases r) auto
    from cnt s c r have "d \<noteq> CHR ''.''" by (auto split: if_splits)
    moreover have "isdigit d \<or> d = CHR ''.''" using every [of d] s r by simp
    ultimately have "isdigit d" by blast
    moreover have "\<not> isdigit CHR ''.''" using isdigit_not_point [of "CHR ''.''"] by blast
    ultimately show ?thesis using s c r by (simp add: frac_digits_def)
  qed
qed

lemma decimal_value_nonneg: "0 \<le> decimal_value s"
  by (simp add: decimal_value_def)

lemma suffix_exp_le: "suffix_exp c \<le> 9"
  by (simp add: suffix_exp_def)

lemma ten_power_ge_1: "(1 :: real) \<le> 10 ^ k"
  by simp

lemma handy_parameter_decimal:
  assumes "v \<noteq> []" and "is_a_float (numeric_part v)" and "numeric_part v \<noteq> ''.''"
    and "pow2 (- 126) \<le> decimal_value (numeric_part v)
         \<or> nearest_float (decimal_value (numeric_part v)) = decimal_value (numeric_part v)"
    and "nearest_float (decimal_value (numeric_part v)) * 10 ^ suffix_exp (last v) < 2 ^ 31"
  shows "handy_parameter v
         = Inr \<lfloor>nearest_float (decimal_value (numeric_part v)) * 10 ^ suffix_exp (last v)\<rfloor>"
proof -
  define q where "q = decimal_value (numeric_part v)"
  define f where "f = nearest_float q"
  define k where "k = suffix_exp (last v)"
  have q0: "0 \<le> q" unfolding q_def by (rule decimal_value_nonneg)
  then have f0: "0 \<le> f" unfolding f_def by (rule nearest_float_nonneg)
  have small: "f * 10 ^ k < 2 ^ 31" using assms(5) by (simp add: f_def q_def k_def)
  have "f * 1 \<le> f * 10 ^ k" using ten_power_ge_1 f0 by (rule mult_left_mono)
  with small have "f < 2 ^ 31" by simp
  then have nover: "\<not> 2 ^ 128 \<le> f" by simp
  have nunder: "\<not> (q < pow2 (- 126) \<and> f \<noteq> q)"
    using assms(4) unfolding q_def [symmetric] f_def [symmetric] by linarith
  have dig: "\<not> (int_digits (numeric_part v) = [] \<and> frac_digits (numeric_part v) = [])"
    using decimal_has_digit [OF assms(2,3)] by blast
  have st: "stof (numeric_part v) = Inr f"
    unfolding stof_unfold q_def [symmetric] f_def [symmetric] using dig nover nunder by simp
  have pr: "round_binary 53 (- 1074) (f * 10 ^ k) = f * 10 ^ k"
    unfolding f_def k_def using q0 suffix_exp_le by (rule double_product_exact)
  have nn: "0 \<le> f * 10 ^ k" using f0 by simp
  from small have "\<lfloor>f * 10 ^ k\<rfloor> < 2 ^ 31" by (simp add: floor_less_iff)
  moreover from nn have "0 \<le> \<lfloor>f * 10 ^ k\<rfloor>" by simp
  ultimately have ic: "int_cast (f * 10 ^ k) = Inr \<lfloor>f * 10 ^ k\<rfloor>"
    using nn by (simp add: int_cast_def)
  have "handy_parameter v
      = and_then (stof (numeric_part v)) (\<lambda>f. int_cast (round_binary 53 (- 1074) (f * 10 ^ k)))"
    using assms(1,2) by (simp add: handy_parameter_def k_def)
  also have "\<dots> = int_cast (round_binary 53 (- 1074) (f * 10 ^ k))"
    by (simp only: st and_then_Inr)
  also have "\<dots> = Inr \<lfloor>f * 10 ^ k\<rfloor>" by (simp only: pr ic)
  finally show ?thesis by (simp only: f_def q_def k_def)
qed

lemma handy_parameter_point:
  assumes "v \<noteq> []" and "numeric_part v = ''.''"
  shows "handy_parameter v = Inl InvalidArgument"
proof -
  have fl: "is_a_float ''.''" by (simp add: is_a_float_def)
  have st: "stof ''.'' = Inl InvalidArgument" by (simp add: stof_def isdigit_def)
  show ?thesis
    using assms(1) by (simp add: handy_parameter_def assms(2) fl st)
qed

lemma frac_digits_all: "list_all isdigit (frac_digits s)"
proof (cases "dropWhile isdigit s")
  case Nil
  then have "frac_digits s = []" unfolding frac_digits_def by (simp only: list.case)
  then show ?thesis by simp
next
  case (Cons c r)
  have "list_all isdigit (takeWhile isdigit r)"
    unfolding list_all_iff using set_takeWhileD by fast
  with Cons show ?thesis by (simp add: frac_digits_def)
qed

lemma int_digits_all: "list_all isdigit (int_digits s)"
  unfolding list_all_iff int_digits_def using set_takeWhileD by fast

lemma is_a_float_pointed:
  assumes "list_all isdigit a" and "list_all isdigit b"
  shows "is_a_float (a @ CHR ''.'' # b)"
proof -
  have "list_all (\<lambda>c. c \<in> set ''0123456789.'') a"
    using assms(1) unfolding list_all_iff by (blast intro: isdigit_float_char)
  moreover have "list_all (\<lambda>c. c \<in> set ''0123456789.'') b"
    using assms(2) unfolding list_all_iff by (blast intro: isdigit_float_char)
  moreover have "CHR ''.'' \<in> set ''0123456789.''" by simp
  ultimately have "list_all (\<lambda>c. c \<in> set ''0123456789.'') (a @ CHR ''.'' # b)"
    by (simp only: list_all_append list.pred_inject simp_thms)
  moreover have "count_list (a @ CHR ''.'' # b) CHR ''.'' = 1"
    by (simp add: count_list_digits [OF assms(1)] count_list_digits [OF assms(2)])
  ultimately show ?thesis unfolding is_a_float_def by simp
qed

lemma is_a_float_shape:
  assumes "is_a_float s"
  shows "s = int_digits s \<or> s = int_digits s @ CHR ''.'' # frac_digits s"
proof (cases "dropWhile isdigit s")
  case Nil
  have "takeWhile isdigit s @ dropWhile isdigit s = s" by (rule takeWhile_dropWhile_id)
  then have "takeWhile isdigit s = s" unfolding Nil by (simp only: append_Nil2)
  then have "s = int_digits s" unfolding int_digits_def by (rule sym)
  then show ?thesis ..
next
  case (Cons c r)
  from assms have chars: "list_all (\<lambda>c. c \<in> set ''0123456789.'') s"
    and cnt: "count_list s CHR ''.'' < 2"
    unfolding is_a_float_def by blast+
  from chars have every: "x \<in> set s \<Longrightarrow> isdigit x \<or> x = CHR ''.''" for x
    unfolding list_all_iff using float_char_cases by blast
  have s: "s = int_digits s @ c # r"
    using takeWhile_dropWhile_id [of isdigit s] Cons by (simp add: int_digits_def)
  have "dropWhile isdigit s \<noteq> []" using Cons by simp
  then have "\<not> isdigit (hd (dropWhile isdigit s))" by (rule hd_dropWhile)
  with Cons have nd: "\<not> isdigit c" by simp
  have "c \<in> set s" by (subst s) simp
  with every nd have c: "c = CHR ''.''" by blast
  have "count_list s CHR ''.'' = count_list (int_digits s) CHR ''.'' + (count_list r CHR ''.'' + 1)"
    by (subst s) (simp add: c)
  with cnt have "count_list r CHR ''.'' = 0" by linarith
  then have np: "CHR ''.'' \<notin> set r" using count_list_0_iff [of r "CHR ''.''"] by blast
  have "isdigit x" if "x \<in> set r" for x
  proof -
    from that have "x \<in> set s" by (subst s) simp
    with every have "isdigit x \<or> x = CHR ''.''" by blast
    with np that show ?thesis by blast
  qed
  then have "takeWhile isdigit r = r" by (simp add: takeWhile_eq_all_conv)
  with Cons c have "frac_digits s = r" by (simp add: frac_digits_def)
  with s c show ?thesis by simp
qed

lemma is_a_float_iff:
  "is_a_float s \<longleftrightarrow>
     s \<noteq> [] \<and> (s = int_digits s \<or> s = int_digits s @ CHR ''.'' # frac_digits s)"
proof
  assume f: "is_a_float s"
  then have "s \<noteq> []" unfolding is_a_float_def by blast
  with is_a_float_shape [OF f] show
    "s \<noteq> [] \<and> (s = int_digits s \<or> s = int_digits s @ CHR ''.'' # frac_digits s)" by blast
next
  assume a: "s \<noteq> [] \<and> (s = int_digits s \<or> s = int_digits s @ CHR ''.'' # frac_digits s)"
  then have ne: "s \<noteq> []" by blast
  from a have "s = int_digits s \<or> s = int_digits s @ CHR ''.'' # frac_digits s" by blast
  then show "is_a_float s"
  proof
    assume "s = int_digits s"
    with int_digits_all [of s] have "list_all isdigit s" by simp
    with ne show ?thesis by (rule is_a_float_digits)
  next
    assume e: "s = int_digits s @ CHR ''.'' # frac_digits s"
    have "is_a_float (int_digits s @ CHR ''.'' # frac_digits s)"
      using int_digits_all frac_digits_all by (rule is_a_float_pointed)
    with e show ?thesis by simp
  qed
qed

lemma ilog2_ge:
  assumes "0 < q"
  shows "pow2 (ilog2 q) \<le> q"
proof (cases "1 \<le> q")
  case True
  define n where "n = nat \<lfloor>q\<rfloor>"
  from True have fl: "\<lfloor>q\<rfloor> = int n" and n: "0 < n" by (simp_all add: n_def)
  have il: "ilog2 q = int (bit_length n - 1)"
    using True bit_length_pos [OF n] by (simp add: ilog2_def n_def)
  have "2 ^ (bit_length n - 1) \<le> n" using n by (rule bit_length_lower)
  then have "real (2 ^ (bit_length n - 1)) \<le> real n" by (simp only: of_nat_le_iff)
  then have "(2 :: real) ^ (bit_length n - 1) \<le> real n" by simp
  also have "real n = of_int \<lfloor>q\<rfloor>" by (simp add: fl)
  also have "\<dots> \<le> q" by simp
  finally show ?thesis by (simp only: il pow2_nat)
next
  case False
  define n where "n = nat (\<lceil>1 / q\<rceil> - 1)"
  from False assms have big: "1 < 1 / q" by simp
  then have c: "2 \<le> \<lceil>1 / q\<rceil>" by linarith
  have cn: "int n = \<lceil>1 / q\<rceil> - 1" unfolding n_def using c by linarith
  have il: "ilog2 q = - int (bit_length n)" using False by (simp add: ilog2_def n_def)
  have "Suc n \<le> 2 ^ bit_length n" using bit_length_gt [of n] by simp
  then have "int (Suc n) \<le> int (2 ^ bit_length n)" by (simp only: of_nat_le_iff)
  then have "\<lceil>1 / q\<rceil> \<le> 2 ^ bit_length n" using cn by simp
  then have "real_of_int \<lceil>1 / q\<rceil> \<le> real_of_int (2 ^ bit_length n)" by (simp only: of_int_le_iff)
  also have "real_of_int (2 ^ bit_length n) = 2 ^ bit_length n" by simp
  finally have "real_of_int \<lceil>1 / q\<rceil> \<le> 2 ^ bit_length n" .
  moreover have "1 / q \<le> of_int \<lceil>1 / q\<rceil>" by linarith
  ultimately have "1 / q \<le> 2 ^ bit_length n" by (rule order_trans [rotated])
  then have "1 \<le> q * 2 ^ bit_length n" using assms by (simp add: field_simps)
  then have "1 / 2 ^ bit_length n \<le> q" by (simp add: field_simps)
  moreover have "pow2 (ilog2 q) = 1 / 2 ^ bit_length n"
    using pow2_nonpos [of "ilog2 q"] by (simp add: il)
  ultimately show ?thesis by simp
qed

lemma ilog2_lower:
  assumes "0 < q" and "pow2 k \<le> q"
  shows "k \<le> ilog2 q"
proof (rule ccontr)
  assume "\<not> k \<le> ilog2 q"
  then have "ilog2 q + 1 \<le> k" by simp
  then have "pow2 (ilog2 q + 1) \<le> pow2 k" by (rule pow2_mono)
  with ilog2_lt [OF assms(1)] assms(2) show False by simp
qed

lemma round_half_even_error: "\<bar>of_int (round_half_even x) - x\<bar> \<le> 1 / 2"
proof -
  have "of_int \<lfloor>x\<rfloor> \<le> x" and "x < of_int \<lfloor>x\<rfloor> + 1" by linarith+
  then show ?thesis
    unfolding round_half_even_def Let_def by (simp split: if_splits)
qed

text \<open>A float of the normal range is within half a unit of its last place of the number.\<close>

lemma nearest_float_error:
  assumes "pow2 (- 126) \<le> q"
  shows "\<bar>nearest_float q - q\<bar> \<le> q / 2 ^ 24"
proof -
  have qpos: "0 < q" using pow2_pos [of "- 126"] assms by linarith
  from qpos assms have "- 126 \<le> ilog2 q" by (rule ilog2_lower)
  then have qe: "max (ilog2 q - int 24 + 1) (- 149) = ilog2 q - 23" by simp
  define u where "u = pow2 (ilog2 q - 23)"
  have upos: "0 < u" unfolding u_def by (rule pow2_pos)
  have "pow2 (ilog2 q) = pow2 ((ilog2 q - 23) + 23)" by simp
  also have "\<dots> = u * pow2 23" unfolding u_def by (rule pow2_add)
  also have "pow2 23 = 2 ^ 23" using pow2_nat [of 23] by simp
  finally have "u * 2 ^ 23 \<le> q" using ilog2_ge [OF qpos] by simp
  then have ub: "u / 2 \<le> q / 2 ^ 24" by simp
  have f: "nearest_float q = of_int (round_half_even (q / u)) * u"
    using qpos unfolding nearest_float_def round_binary_def Let_def qe u_def by simp
  have "nearest_float q - q = (of_int (round_half_even (q / u)) - q / u) * u"
    using upos by (simp add: f field_simps)
  then have "\<bar>nearest_float q - q\<bar> = \<bar>of_int (round_half_even (q / u)) - q / u\<bar> * u"
    using upos by (simp add: abs_mult)
  also have "\<dots> \<le> 1 / 2 * u"
    using round_half_even_error upos by (intro mult_right_mono) simp_all
  finally show ?thesis using ub by simp
qed

lemma nearest_float_exact:
  assumes "0 < M" and "M < 2 ^ 24" and "- 149 \<le> E"
  shows "nearest_float (of_int M * pow2 E) = of_int M * pow2 E"
  unfolding nearest_float_def using assms by (rule round_binary_exact)

lemma numeric_part_1_5: "numeric_part ''1.5'' = ''1.5'' \<and> numeric_part ''1.5k'' = ''1.5''"
  by (simp add: numeric_part_def suffix_exp_def)

lemma decimal_value_1_5: "decimal_value ''1.5'' = 3 / 2"
  by (simp add: decimal_value_def int_digits_def frac_digits_def isdigit_def digits_value_def)

lemma nearest_float_1_5: "nearest_float (3 / 2) = 3 / 2"
  using nearest_float_exact [of 3 "- 1"] by (simp add: pow2_def)

lemma is_a_float_1_5: "is_a_float ''1.5''"
  by (simp add: is_a_float_def)

lemma numeric_part_0_7k: "numeric_part ''0.7k'' = ''0.7''"
  by (simp add: numeric_part_def suffix_exp_def)

lemma decimal_value_0_7: "decimal_value ''0.7'' = 7 / 10"
  by (simp add: decimal_value_def int_digits_def frac_digits_def isdigit_def digits_value_def)

lemma nearest_float_0_7: "nearest_float (7 / 10) = 11744051 / 16777216"
proof -
  have il: "ilog2 (7 / 10) = - 1" by (simp add: ilog2_def bit_length.simps)
  have rh: "round_half_even (58720256 / 5) = 11744051"
    by (simp add: round_half_even_def Let_def)
  show ?thesis
    unfolding nearest_float_def by (simp add: round_binary_def il pow2_def rh)
qed

lemma pow2_126_le: "pow2 (- 126) \<le> 7 / 10 \<and> pow2 (- 126) \<le> 3 / 2"
  by (simp add: pow2_def)

lemma scaled_1_5:
  "''1.5'' \<noteq> [] \<and> is_a_float (numeric_part ''1.5'') \<and> numeric_part ''1.5'' \<noteq> ''.''
   \<and> (pow2 (- 126) \<le> decimal_value (numeric_part ''1.5'')
        \<or> nearest_float (decimal_value (numeric_part ''1.5''))
           = decimal_value (numeric_part ''1.5''))
   \<and> nearest_float (decimal_value (numeric_part ''1.5'')) * 10 ^ suffix_exp (last ''1.5'')
       < 2 ^ 31"
  by (simp add: numeric_part_1_5 decimal_value_1_5 nearest_float_1_5 is_a_float_1_5
      suffix_exp_def)

lemma truncated_1_5:
  "\<lfloor>nearest_float (decimal_value (numeric_part ''1.5'')) * 10 ^ suffix_exp (last ''1.5'')\<rfloor> = 1"
  by (simp add: numeric_part_1_5 decimal_value_1_5 nearest_float_1_5 suffix_exp_def)

lemma scaled_1_5k:
  "''1.5k'' \<noteq> [] \<and> is_a_float (numeric_part ''1.5k'') \<and> numeric_part ''1.5k'' \<noteq> ''.''
   \<and> (pow2 (- 126) \<le> decimal_value (numeric_part ''1.5k'')
        \<or> nearest_float (decimal_value (numeric_part ''1.5k''))
           = decimal_value (numeric_part ''1.5k''))
   \<and> nearest_float (decimal_value (numeric_part ''1.5k'')) * 10 ^ suffix_exp (last ''1.5k'')
       < 2 ^ 31"
  by (simp add: numeric_part_1_5 decimal_value_1_5 nearest_float_1_5 is_a_float_1_5
      suffix_exp_def)

lemma truncated_1_5k:
  "\<lfloor>nearest_float (decimal_value (numeric_part ''1.5k'')) * 10 ^ suffix_exp (last ''1.5k'')\<rfloor>
   = 1500"
  by (simp add: numeric_part_1_5 decimal_value_1_5 nearest_float_1_5 suffix_exp_def)

lemma scaled_0_7k:
  "''0.7k'' \<noteq> [] \<and> is_a_float (numeric_part ''0.7k'') \<and> numeric_part ''0.7k'' \<noteq> ''.''
   \<and> (pow2 (- 126) \<le> decimal_value (numeric_part ''0.7k'')
        \<or> nearest_float (decimal_value (numeric_part ''0.7k''))
           = decimal_value (numeric_part ''0.7k''))
   \<and> nearest_float (decimal_value (numeric_part ''0.7k'')) * 10 ^ suffix_exp (last ''0.7k'')
       < 2 ^ 31"
  by (simp add: numeric_part_0_7k decimal_value_0_7 nearest_float_0_7 pow2_def
      is_a_float_def suffix_exp_def)

lemma truncated_0_7k:
  "\<lfloor>nearest_float (decimal_value (numeric_part ''0.7k'')) * 10 ^ suffix_exp (last ''0.7k'')\<rfloor>
   = 699"
  by (simp add: numeric_part_0_7k decimal_value_0_7 nearest_float_0_7 suffix_exp_def)

lemma digits_1000:
  "''1000'' \<noteq> [] \<and> list_all isdigit ''1000'' \<and> digits_value ''1000'' < 2 ^ 24"
  by (simp add: isdigit_def digits_value_def)

lemma digits_2k:
  "''2'' \<noteq> [] \<and> list_all isdigit ''2'' \<and> digits_value ''2'' < 2 ^ 24
   \<and> CHR ''k'' \<in> set ''kKmMgG'' \<and> digits_value ''2'' * 10 ^ suffix_exp CHR ''k'' < 2 ^ 31"
  by (simp add: isdigit_def digits_value_def suffix_exp_def)

lemma not_a_float_5x: "''5x'' \<noteq> [] \<and> \<not> is_a_float (numeric_part ''5x'')"
  by (simp add: numeric_part_def suffix_exp_def is_a_float_def)

lemma lone_point: "''.'' \<noteq> [] \<and> numeric_part ''.'' = ''.''"
  by (simp add: numeric_part_def suffix_exp_def)


section \<open>Claim C10: \<^verbatim>\<open>handy_parameter\<close>\<close>



section \<open>Properties of \<^verbatim>\<open>parse_args\<close>\<close>

lemma unat_UINT64_MAX: "unat UINT64_MAX = 18446744073709551615"
  by (simp add: UINT64_MAX_def unsigned_minus_1_eq_mask mask_eq_exp_minus_1)

lemma late_sparsification: "sparsity_hash_threshold_of constructed_after_ParseCLI = Inr UINT64_MAX"
  by (simp add: sparsity_hash_threshold_of_def constructed_after_ParseCLI_def)

lemma late_wfa_scores: "wfa_scores_of split (args_get [] constructed_after_ParseCLI) = Inr (2, 3, 1)"
  by (simp add: wfa_scores_of_def args_get_def constructed_after_ParseCLI_def)

lemma parse_args_unfold:
  "parse_args split y flags =
     and_then (segLength_of y (segment_length_flag flags)) (\<lambda>s.
     and_then (max_mapping_length_of y (max_mapping_length_flag flags)) (\<lambda>l.
     if s \<ge> l then Inl (Exit 1)
     else and_then (index_by_size_of (index_by_flag flags)) (\<lambda>index_size.
       Inr \<lparr> sparsity_hash_threshold = UINT64_MAX,
             wfa_mismatch_score = 2,
             wfa_gap_opening_score = 3,
             wfa_gap_extension_score = 1,
             segLength = s,
             max_mapping_length = l,
             wflign_max_len_major = word_of_int (s * 512),
             wflign_max_len_minor = word_of_int (s * 128),
             index_by_size = index_size,
             approx_mapping = approx_mapping_flag flags \<rparr>)))"
  by (simp add: parse_args_def late_sparsification late_wfa_scores cong del: if_weak_cong)

lemma and_then_eq_Inr:
  "and_then m f = Inr y \<longleftrightarrow> (\<exists>x. m = Inr x \<and> f x = Inr y)"
  by (cases m) simp_all

lemma segLength_of_Inr:
  "segLength_of y flag = Inr s \<Longrightarrow>
     100 \<le> s \<and> (flag = None \<longrightarrow> s = 1000) \<and> (\<forall>v. flag = Some v \<longrightarrow> handy_parameter v = Inr s)"
  by (cases flag) (auto simp: segLength_of_def and_then_eq_Inr split: if_splits)

lemma parse_args_Inr:
  assumes "parse_args split y flags = Inr p"
  shows "segLength_of y (segment_length_flag flags) = Inr (segLength p)"
    and "max_mapping_length_of y (max_mapping_length_flag flags) = Inr (max_mapping_length p)"
    and "segLength p < max_mapping_length p"
    and "index_by_size_of (index_by_flag flags) = Inr (index_by_size p)"
    and "wfa_mismatch_score p = 2" and "wfa_gap_opening_score p = 3"
    and "wfa_gap_extension_score p = 1" and "sparsity_hash_threshold p = UINT64_MAX"
  using assms unfolding parse_args_unfold
  by (auto simp: and_then_eq_Inr split: if_splits)


lemma handy_50: "handy_parameter ''50'' = Inr 50"
  using handy_parameter_digits [of "''50''"] by (simp add: isdigit_def digits_value_def)

lemma handy_500: "handy_parameter ''500'' = Inr 500"
  using handy_parameter_digits [of "''500''"] by (simp add: isdigit_def digits_value_def)

lemma handy_20000: "handy_parameter ''20000'' = Inr 20000"
  using handy_parameter_digits [of "''20000''"] by (simp add: isdigit_def digits_value_def)

lemma no_options_simps:
  "\<not> approx_mapping_flag no_options"
  "segment_length_flag no_options = None"
  "max_mapping_length_flag no_options = None"
  "index_by_flag no_options = None"
  by (simp_all add: no_options_def)

lemma parse_args_no_options:
  "parse_args split False no_options = Inr default_parameters"
  by (simp add: parse_args_unfold no_options_def segLength_of_def max_mapping_length_of_def
      index_by_size_of_def default_parameters_def)

text \<open>
  The argument \<^verbatim>\<open>4G\<close>, which the help text of \<^verbatim>\<open>-b\<close> names as the default, cannot be
  given: \<open>4 * 10^9\<close> does not fit the \<^verbatim>\<open>int\<close> of the cast in \<^verbatim>\<open>handy_parameter\<close>.
\<close>

lemma handy_4G: "handy_parameter ''4G'' = Inl UndefinedBehaviour"
proof -
  have np: "numeric_part ''4G'' = ''4''" by (simp add: numeric_part_def suffix_exp_def)
  have se: "suffix_exp (last ''4G'') = 9" by (simp add: suffix_exp_def)
  have fl: "is_a_float ''4''" by (simp add: is_a_float_def)
  have st: "stof ''4'' = Inr 4"
    using stof_digits [of "''4''"] by (simp add: isdigit_def digits_value_def)
  have rb: "round_binary 53 (- 1074) (4 * 10 ^ 9) = 4000000000"
    using round_binary_of_nat [of 4000000000 53 "- 1074"] by simp
  have ic: "int_cast 4000000000 = Inl UndefinedBehaviour" by (simp add: int_cast_def)
  show ?thesis
    unfolding handy_parameter_def np se by (simp only: fl st and_then_Inr rb ic) simp
qed

lemma index_by_4G: "index_by_size_of (Some ''4G'') = Inl UndefinedBehaviour"
  by (simp add: index_by_size_of_def handy_4G)

section \<open>Claim C3: the checks of the segment length\<close>

text \<open>
  What the checks of lines 273--296 and 358--361 do, whatever value
  \<^verbatim>\<open>yeet_parameters.approx_mapping\<close> has when line 287 reads it: a supplied segment length
  below 100 is an exit with status 1, and so is one above 10000 when the field is false;
  an accepted segment length is at least 100 and smaller than the maximum mapping length,
  it is the supplied value, and 1000 when \<^verbatim>\<open>-s\<close> is absent.
\<close>

lemma segment_length_bounds:
  "(segment_length_flag flags = Some v \<and> handy_parameter v = Inr s \<and> s < 100
      \<longrightarrow> parse_args split y flags = Inl (Exit 1))
   \<and> (segment_length_flag flags = Some v \<and> handy_parameter v = Inr s \<and> 10000 < s \<and> \<not> y
      \<longrightarrow> parse_args split y flags = Inl (Exit 1))
   \<and> (parse_args split y flags = Inr p
      \<longrightarrow> 100 \<le> segLength p \<and> segLength p < max_mapping_length p
          \<and> (segment_length_flag flags = None \<longrightarrow> segLength p = 1000)
          \<and> (segment_length_flag flags = Some v \<longrightarrow> handy_parameter v = Inr (segLength p)))"
proof (intro conjI impI)
  assume "segment_length_flag flags = Some v \<and> handy_parameter v = Inr s \<and> s < 100"
  then have "segLength_of y (segment_length_flag flags) = Inl (Exit 1)"
    by (simp add: segLength_of_def)
  then show "parse_args split y flags = Inl (Exit 1)"
    by (simp add: parse_args_unfold)
next
  assume "segment_length_flag flags = Some v \<and> handy_parameter v = Inr s \<and> 10000 < s \<and> \<not> y"
  then have "segLength_of y (segment_length_flag flags) = Inl (Exit 1)"
    by (simp add: segLength_of_def)
  then show "parse_args split y flags = Inl (Exit 1)"
    by (simp add: parse_args_unfold)
next
  assume ok: "parse_args split y flags = Inr p"
  note sl = segLength_of_Inr [OF parse_args_Inr(1) [OF ok]]
  from sl show "100 \<le> segLength p" by simp
  from parse_args_Inr(3) [OF ok] show "segLength p < max_mapping_length p" .
  { assume "segment_length_flag flags = None"
    with sl show "segLength p = 1000" by simp }
  { assume "segment_length_flag flags = Some v"
    with sl show "handy_parameter v = Inr (segLength p)" by simp }
qed

text \<open>
  A supplied segment length of at least 100 is accepted when it is at most 10000, or when
  the field read on line 287 is true, provided that the later blocks accept their own
  options and the maximum mapping length is larger.
\<close>

lemma segment_length_accepted:
  assumes "segment_length_flag flags = Some v" and "handy_parameter v = Inr s"
    and "100 \<le> s" and "y \<or> s \<le> 10000"
    and "max_mapping_length_of y (max_mapping_length_flag flags) = Inr l" and "s < l"
    and "index_by_size_of (index_by_flag flags) = Inr b"
  shows "\<exists>p. parse_args split y flags = Inr p \<and> segLength p = s"
proof -
  have "segLength_of y (segment_length_flag flags) = Inr s"
    using assms(1-4) by (auto simp: segLength_of_def)
  then show ?thesis
    using assms(5-7) by (simp add: parse_args_unfold)
qed

lemma segment_length_examples:
  "parse_args split False (no_options\<lparr>segment_length_flag := Some ''50''\<rparr>) = Inl (Exit 1)
   \<and> parse_args split False (no_options\<lparr>segment_length_flag := Some ''500''\<rparr>)
       = Inr (default_parameters\<lparr>segLength := 500, wflign_max_len_major := 256000,
               wflign_max_len_minor := 64000\<rparr>)
   \<and> parse_args split False no_options = Inr default_parameters
   \<and> segLength default_parameters = 1000"
proof (intro conjI)
  have "segLength_of False (Some ''50'') = Inl (Exit 1)"
    by (simp add: segLength_of_def handy_50)
  then show "parse_args split False (no_options\<lparr>segment_length_flag := Some ''50''\<rparr>)
      = Inl (Exit 1)"
    by (simp add: parse_args_unfold no_options_def)
  show "parse_args split False (no_options\<lparr>segment_length_flag := Some ''500''\<rparr>)
       = Inr (default_parameters\<lparr>segLength := 500, wflign_max_len_major := 256000,
               wflign_max_len_minor := 64000\<rparr>)"
    by (simp add: parse_args_unfold no_options_def segLength_of_def max_mapping_length_of_def
        index_by_size_of_def default_parameters_def handy_500)
  show "parse_args split False no_options = Inr default_parameters"
    by (rule parse_args_no_options)
  show "segLength default_parameters = 1000" by (simp add: default_parameters_def)
qed

text \<open>
  C3 does not hold of the code, by a slip of the code. The claim: a segment length above
  10000 is an error only in align mode, so that with \<^verbatim>\<open>-m\<close> every segment length of at
  least 100 is accepted. Line 287 decides the mode by \<^verbatim>\<open>yeet_parameters.approx_mapping\<close>,
  which is assigned from the flag \<^verbatim>\<open>-m\<close> only on lines 580--584: when line 287 runs, the
  field still has the value of the default-constructed structure, false (line 27). So
  \<^verbatim>\<open>-m -s 20000\<close> exits with status 1, with the message of lines 288--290 that asks for
  the very option \<^verbatim>\<open>-m\<close> that was given. Had the field been true when it was read, the same
  command line would have been accepted with segment length 20000.
\<close>

theorem approx_mapping_is_read_before_it_is_set:
  "handy_parameter ''20000'' = Inr 20000
   \<and> segLength_of False (Some ''20000'') = Inl (Exit 1)
   \<and> parse_args split False
         (no_options\<lparr>approx_mapping_flag := True, segment_length_flag := Some ''20000''\<rparr>)
       = Inl (Exit 1)
   \<and> parse_args split True
         (no_options\<lparr>approx_mapping_flag := True, segment_length_flag := Some ''20000''\<rparr>)
       = Inr (default_parameters\<lparr>segLength := 20000, wflign_max_len_major := 10240000,
               wflign_max_len_minor := 2560000, approx_mapping := True\<rparr>)"
proof (intro conjI)
  show "handy_parameter ''20000'' = Inr 20000" by (rule handy_20000)
  show no: "segLength_of False (Some ''20000'') = Inl (Exit 1)"
    by (simp add: segLength_of_def handy_20000)
  show "parse_args split False
         (no_options\<lparr>approx_mapping_flag := True, segment_length_flag := Some ''20000''\<rparr>)
       = Inl (Exit 1)"
    by (simp add: parse_args_unfold no_options_def no)
  have yes: "segLength_of True (Some ''20000'') = Inr 20000"
    by (simp add: segLength_of_def handy_20000)
  show "parse_args split True
         (no_options\<lparr>approx_mapping_flag := True, segment_length_flag := Some ''20000''\<rparr>)
       = Inr (default_parameters\<lparr>segLength := 20000, wflign_max_len_major := 10240000,
               wflign_max_len_minor := 2560000, approx_mapping := True\<rparr>)"
    by (simp add: parse_args_unfold no_options_def yes max_mapping_length_of_def
        index_by_size_of_def default_parameters_def)
qed

section \<open>Claim C5: the default batch size\<close>

text \<open>
  C5, as stated, fails. The claim: without \<^verbatim>\<open>-b\<close> the batch budget
  \<^verbatim>\<open>index_by_size\<close> is 4 GB. Line 577 assigns
  \<^verbatim>\<open>std::numeric_limits<size_t>::max()\<close> (``default to indexing all sequences''); the
  \<open>4G\<close> appears only in the help text of the option.
\<close>

theorem index_by_size_default_counterexample:
  "parse_args (\<lambda>s c. []) False no_options = Inr default_parameters
   \<and> unat (index_by_size default_parameters) = 18446744073709551615
   \<and> unat (index_by_size default_parameters) \<noteq> 4000000000"
  by (simp add: parse_args_no_options unat_UINT64_MAX) (simp add: default_parameters_def unat_UINT64_MAX)

text \<open>
  C5, amended: when no batch-size option is given, \<^verbatim>\<open>index_by_size\<close> is the largest
  \<^verbatim>\<open>size_t\<close>, \<open>2^64 - 1\<close>, so that all target sequences are indexed in one batch.
\<close>

theorem index_by_size_default:
  "index_by_size_of None = Inr UINT64_MAX
   \<and> unat UINT64_MAX = 2 ^ 64 - 1
   \<and> (parse_args split y flags = Inr p \<and> index_by_flag flags = None
        \<longrightarrow> unat (index_by_size p) = 2 ^ 64 - 1)"
proof (intro conjI impI)
  show "index_by_size_of None = Inr UINT64_MAX" by (simp add: index_by_size_of_def)
  show u: "unat UINT64_MAX = 2 ^ 64 - 1" by (simp add: unat_UINT64_MAX)
  assume "parse_args split y flags = Inr p \<and> index_by_flag flags = None"
  then have "index_by_size_of None = Inr (index_by_size p)"
    using parse_args_Inr(4) [of split y flags p] by simp
  then have "index_by_size p = UINT64_MAX" by (simp add: index_by_size_of_def)
  with u show "unat (index_by_size p) = 2 ^ 64 - 1" by simp
qed

theorem index_by_size_default_witness:
  "parse_args (\<lambda>s c. []) False no_options = Inr default_parameters
   \<and> index_by_flag no_options = None
   \<and> unat (index_by_size default_parameters) = 18446744073709551615"
  using index_by_size_default [of "\<lambda>s c. []" False no_options default_parameters]
  by (simp add: parse_args_no_options no_options_simps)

section \<open>Claim C6: the WFA scoring parameters\<close>

text \<open>
  C6 holds for the block of lines 227--246 taken alone, and the first half (the defaults
  2, 3, 1) holds for the program. The second half does not: the flag the block reads is
  constructed after the command line has been parsed, so a value given with
  \<^verbatim>\<open>--wfa-params\<close> never reaches it. With \<^verbatim>\<open>--wfa-params 4,6,2\<close> the scores are still
  2, 3, 1, and \<^verbatim>\<open>--wfa-params 1,2\<close>, which does not carry three integers, is accepted
  as well.
\<close>

theorem wfa_params_option_is_ignored:
  "parse_args split False (no_options\<lparr>wfa_params_flag := Some ''4,6,2''\<rparr>)
     = Inr default_parameters
   \<and> wfa_mismatch_score default_parameters = 2
   \<and> wfa_gap_opening_score default_parameters = 3
   \<and> wfa_gap_extension_score default_parameters = 1
   \<and> parse_args split False (no_options\<lparr>wfa_params_flag := Some ''1,2''\<rparr>)
     = Inr default_parameters"
  by (simp add: parse_args_unfold no_options_def segLength_of_def max_mapping_length_of_def
      index_by_size_of_def default_parameters_def)

section \<open>Claim C8: the sparsification threshold\<close>

text \<open>
  C8 does not hold of the code, by a slip of the code. The claim: when the sparsification
  option is given with factor 1.0 the threshold is \<^verbatim>\<open>UINT64_MAX\<close>, and with another factor
  it is the factor multiplied by \<^verbatim>\<open>UINT64_MAX\<close>. The flag that lines 213--224 read is
  constructed on line 212, after the command line has been parsed on line 133, so it is
  never matched: the branch of lines 214--220 is dead, and whatever the command line, a
  run that \<^verbatim>\<open>parse_args\<close> accepts has the threshold \<^verbatim>\<open>UINT64_MAX\<close> (\<open>2^64 - 1\<close>), the
  value of no sparsification.
\<close>

theorem sparsification_flag_is_never_matched:
  "sparsity_hash_threshold_of constructed_after_ParseCLI = Inr UINT64_MAX
   \<and> (case parse_args split y flags of
         Inl e \<Rightarrow> True
       | Inr p \<Rightarrow> sparsity_hash_threshold p = UINT64_MAX)
   \<and> parse_args split False no_options = Inr default_parameters
   \<and> sparsity_hash_threshold default_parameters = UINT64_MAX
   \<and> unat UINT64_MAX = 2 ^ 64 - 1"
proof (intro conjI)
  show "sparsity_hash_threshold_of constructed_after_ParseCLI = Inr UINT64_MAX"
    by (rule late_sparsification)
  show "case parse_args split y flags of
         Inl e \<Rightarrow> True
       | Inr p \<Rightarrow> sparsity_hash_threshold p = UINT64_MAX"
  proof (cases "parse_args split y flags")
    case (Inl e)
    then show ?thesis by simp
  next
    case (Inr p)
    from parse_args_Inr(8) [OF Inr] Inr show ?thesis by simp
  qed
  show "parse_args split False no_options = Inr default_parameters"
    by (rule parse_args_no_options)
  show "sparsity_hash_threshold default_parameters = UINT64_MAX"
    by (simp add: default_parameters_def)
  show "unat UINT64_MAX = 2 ^ 64 - 1" by (simp add: unat_UINT64_MAX)
qed
section \<open>Properties of \<^verbatim>\<open>parseMashmapRow\<close> and of the counting pass\<close>

lemma parseMashmapRow_short:
  "length (tokenize [] l) < 9 \<Longrightarrow> parseMashmapRow mm_id_of l = Inl AssertionFailed"
  by (simp add: parseMashmapRow_def Let_def)

lemma parseMashmapRow_no_identity_column:
  "9 \<le> length (tokenize [] l) \<Longrightarrow> length (tokenize [] l) \<le> 12
     \<Longrightarrow> parseMashmapRow mm_id_of l = Inl UndefinedBehaviour"
  by (simp add: parseMashmapRow_def Let_def vector_at_def)

lemma count_alignment_length_append:
  "count_alignment_length mm_id_of (pre @ rest) acc =
     and_then (count_alignment_length mm_id_of pre acc) (count_alignment_length mm_id_of rest)"
proof (induction pre arbitrary: acc)
  case Nil
  then show ?case by simp
next
  case (Cons l pre)
  show ?case
  proof (cases "l = []")
    case True
    then show ?thesis by (simp add: Cons.IH)
  next
    case False
    show ?thesis
    proof (cases "parseMashmapRow mm_id_of l")
      case (Inl e)
      with False show ?thesis by simp
    next
      case (Inr r)
      with False show ?thesis
        by (cases "int_sub (qEndPos r) (qStartPos r)") (simp_all add: Cons.IH)
    qed
  qed
qed

lemma count_alignment_length_short_row:
  assumes "l \<in> set ls" and "l \<noteq> []" and "length (tokenize [] l) < 9"
  shows "\<exists>e. count_alignment_length mm_id_of ls acc = Inl e"
  using assms(1)
proof (induction ls arbitrary: acc)
  case Nil
  then show ?case by simp
next
  case (Cons k ls)
  show ?case
  proof (cases "k = l")
    case True
    with assms(2,3) show ?thesis by (simp add: parseMashmapRow_short)
  next
    case False
    with Cons.prems have "l \<in> set ls" by simp
    then have ih: "\<exists>e. count_alignment_length mm_id_of ls a = Inl e" for a
      by (rule Cons.IH)
    show ?thesis
    proof (cases "k = []")
      case True
      with ih show ?thesis by simp
    next
      case k: False
      show ?thesis
      proof (cases "parseMashmapRow mm_id_of k")
        case (Inl e)
        with k show ?thesis by simp
      next
        case (Inr r)
        with k ih show ?thesis
          by (cases "int_sub (qEndPos r) (qStartPos r)") simp_all
      qed
    qed
  qed
qed

lemma tokenize_nine_columns:
  "tokenize [] ''q 100 0 50 + t 200 0 50'' =
     [''q'', ''100'', ''0'', ''50'', ''+'', ''t'', ''200'', ''0'', ''50'']"
  by (simp add: tokenize.simps isspace_def)

lemma tokenize_six_columns:
  "tokenize [] ''q 100 0 50 + t'' = [''q'', ''100'', ''0'', ''50'', ''+'', ''t'']"
  by (simp add: tokenize.simps isspace_def)

lemma tokenize_thirteen_columns:
  "tokenize [] ''q 100 0 50 + t 200 0 50 50 50 255 id:f:99'' =
     [''q'', ''100'', ''0'', ''50'', ''+'', ''t'', ''200'', ''0'', ''50'', ''50'', ''50'', ''255'',
      ''id:f:99'']"
  by (simp add: tokenize.simps isspace_def)

lemma stoi_examples:
  "stoi ''0'' = Inr 0" "stoi ''50'' = Inr 50"
  by (simp_all add: stoi_def isspace_def isdigit_def digits_value_def)

text \<open>A row with all its columns is read without failure.\<close>

lemma parseMashmapRow_thirteen_columns:
  "parseMashmapRow (\<lambda>s. Inr (0 :: nat)) ''q 100 0 50 + t 200 0 50 50 50 255 id:f:99''
   = Inr \<lparr> qId = ''q'', qStartPos = 0, qEndPos = 50, strand = FWD, refId = ''t'',
           rStartPos = 0, rEndPos = 50, mashmap_estimated_identity = 0 \<rparr>"
  by (simp add: parseMashmapRow_def tokenize_thirteen_columns vector_at_def stoi_examples)

lemma count_alignment_length_thirteen_columns:
  "count_alignment_length (\<lambda>s. Inr (0 :: nat))
     [''q 100 0 50 + t 200 0 50 50 50 255 id:f:99''] 0 = Inr 50"
  by (simp add: parseMashmapRow_thirteen_columns int_sub_def)

section \<open>Claim C1: a mapping row with fewer than 9 columns\<close>

text \<open>
  C1, as stated, fails. The claim: a row of the mapping file with fewer than 9 columns makes
  the process exit with code 2 after one diagnostic, with nothing written to the output.
  No path of \<^verbatim>\<open>computeAlignments\<close> exits with code 2: on the row
  \<^verbatim>\<open>q 100 0 50 + t\<close> the assertion \<^verbatim>\<open>tokens.size() >= 9\<close> of \<^verbatim>\<open>parseMashmapRow\<close>
  fails, which aborts the process.
\<close>

theorem short_row_counterexample:
  "computeAlignments (\<lambda>s. Inr (0 :: nat)) (\<lambda>r :: nat. []) 1 [''q 100 0 50 + t''] [] []
     = (Some AssertionFailed, [])
   \<and> Some AssertionFailed \<noteq> Some (Exit 2)"
  by (simp add: computeAlignments_def parseMashmapRow_short tokenize_six_columns)

text \<open>
  C1, amended: a non-empty row with fewer than 9 white-space separated columns makes the
  counting pass at the start of \<^verbatim>\<open>computeAlignments\<close> fail, before the output stream is
  opened and before any thread runs, so that nothing has been written; when the rows
  before it are read without failure, the failure is that of the assertion
  \<^verbatim>\<open>tokens.size() >= 9\<close>, which aborts the process (there is no exit with code 2).
\<close>

theorem short_row_aborts_before_output:
  "(l \<in> set mapping_lines \<and> l \<noteq> [] \<and> length (tokenize [] l) < 9
      \<longrightarrow> (\<exists>e. computeAlignments mm_id_of doAlignment nthreads mapping_lines work schedule
                 = (Some e, [])))
   \<and> (count_alignment_length mm_id_of pre 0 = Inr acc \<and> l \<noteq> [] \<and> length (tokenize [] l) < 9
      \<longrightarrow> computeAlignments mm_id_of doAlignment nthreads (pre @ l # post) work schedule
            = (Some AssertionFailed, []))"
proof (intro conjI impI)
  assume "l \<in> set mapping_lines \<and> l \<noteq> [] \<and> length (tokenize [] l) < 9"
  then obtain e where "count_alignment_length mm_id_of mapping_lines 0 = Inl e"
    using count_alignment_length_short_row [of l mapping_lines mm_id_of 0] by blast
  then show "\<exists>e. computeAlignments mm_id_of doAlignment nthreads mapping_lines work schedule
                 = (Some e, [])"
    by (simp add: computeAlignments_def)
next
  assume a: "count_alignment_length mm_id_of pre 0 = Inr acc \<and> l \<noteq> []
    \<and> length (tokenize [] l) < 9"
  then have "count_alignment_length mm_id_of (pre @ l # post) 0 = Inl AssertionFailed"
    by (simp add: count_alignment_length_append parseMashmapRow_short)
  then show "computeAlignments mm_id_of doAlignment nthreads (pre @ l # post) work schedule
            = (Some AssertionFailed, [])"
    by (simp add: computeAlignments_def)
qed

theorem short_row_aborts_before_output_witness:
  "(\<exists>e. computeAlignments (\<lambda>s. Inr (0 :: nat)) (\<lambda>r :: nat. ''x'') 1
        [''q 100 0 50 + t 200 0 50 50 50 255 id:f:99'', ''q 100 0 50 + t'']
        [0] [Reader, Worker 0, Worker 0, Worker 0, Writer] = (Some e, []))
   \<and> computeAlignments (\<lambda>s. Inr (0 :: nat)) (\<lambda>r :: nat. ''x'') 1
       ([''q 100 0 50 + t 200 0 50 50 50 255 id:f:99'']
          @ ''q 100 0 50 + t'' # [''q 100 0 50 + t 200 0 50''])
       [0] [Reader, Worker 0, Worker 0, Worker 0, Writer]
     = (Some AssertionFailed, [])"
proof (intro conjI)
  show "\<exists>e. computeAlignments (\<lambda>s. Inr (0 :: nat)) (\<lambda>r :: nat. ''x'') 1
        [''q 100 0 50 + t 200 0 50 50 50 255 id:f:99'', ''q 100 0 50 + t'']
        [0] [Reader, Worker 0, Worker 0, Worker 0, Writer] = (Some e, [])"
    using short_row_aborts_before_output [of "''q 100 0 50 + t''"
        "[''q 100 0 50 + t 200 0 50 50 50 255 id:f:99'', ''q 100 0 50 + t'']"
        "\<lambda>s. Inr (0 :: nat)" "\<lambda>r :: nat. ''x''" 1 "[0]"
        "[Reader, Worker 0, Worker 0, Worker 0, Writer]" "[]" 0 "[]"]
    by (simp add: tokenize_six_columns)
  show "computeAlignments (\<lambda>s. Inr (0 :: nat)) (\<lambda>r :: nat. ''x'') 1
       ([''q 100 0 50 + t 200 0 50 50 50 255 id:f:99'']
          @ ''q 100 0 50 + t'' # [''q 100 0 50 + t 200 0 50''])
       [0] [Reader, Worker 0, Worker 0, Worker 0, Writer]
     = (Some AssertionFailed, [])"
    using short_row_aborts_before_output [of "''q 100 0 50 + t''" "[]" "\<lambda>s. Inr (0 :: nat)"
        "\<lambda>r :: nat. ''x''" 1 "[0]" "[Reader, Worker 0, Worker 0, Worker 0, Writer]"
        "[''q 100 0 50 + t 200 0 50 50 50 255 id:f:99'']" 50
        "[''q 100 0 50 + t 200 0 50'']"]
    by (simp only: count_alignment_length_thirteen_columns tokenize_six_columns) simp
qed

section \<open>Claim C9: the accesses of \<^verbatim>\<open>parseMashmapRow\<close>\<close>

text \<open>
  C9: every container access of \<^verbatim>\<open>parseMashmapRow\<close> is in bounds for a line of at least
  9 columns, the read of \<^verbatim>\<open>tokens[12]\<close> included. The code breaks it: the assertion asks
  for 9 columns and line 125 reads the thirteenth. The line below has exactly 9 columns,
  passes the assertion, and the read of \<^verbatim>\<open>tokens[12]\<close> is out of bounds.
\<close>

theorem nine_columns_read_out_of_bounds:
  "length (tokenize [] ''q 100 0 50 + t 200 0 50'') = 9
   \<and> vector_at (tokenize [] ''q 100 0 50 + t 200 0 50'') 12 = Inl UndefinedBehaviour
   \<and> parseMashmapRow mm_id_of ''q 100 0 50 + t 200 0 50'' = Inl UndefinedBehaviour"
  by (simp add: parseMashmapRow_no_identity_column tokenize_nine_columns vector_at_def)

section \<open>Claim C4: the padding of \<^verbatim>\<open>doAlignment\<close>\<close>

lemma to_uint64_id: "0 \<le> x \<Longrightarrow> x < 2 ^ 64 \<Longrightarrow> to_uint64 x = x"
  by (simp add: to_uint64_def)

lemma to_int64_id: "- (2 ^ 63) \<le> x \<Longrightarrow> x < 2 ^ 63 \<Longrightarrow> to_int64 x = x"
  by (simp add: to_int64_def)

lemma head_padding_min:
  "0 \<le> rStart \<Longrightarrow> rStart < 2 ^ 31 \<Longrightarrow> head_padding m rStart = min m rStart"
  by (simp add: head_padding_def to_uint64_id min_def)

lemma tail_padding_min:
  "rEnd \<le> ref_size \<Longrightarrow> ref_size < 2 ^ 63 \<Longrightarrow> 0 \<le> rEnd
     \<Longrightarrow> tail_padding m ref_size rEnd = min m (ref_size - rEnd)"
  by (simp add: tail_padding_def to_uint64_id min_def)

text \<open>
  C4, as stated, fails. The claim: both the query interval and the target interval are
  padded by \<^verbatim>\<open>wflign_max_len_minor\<close> bases. For the mapping of query \<open>[20, 5020)\<close> to
  target \<open>[10, 5010)\<close> of a target of length 6000, with \<^verbatim>\<open>wflign_max_len_minor\<close> at its
  default \<open>128000\<close>, the target is extended by 10 bases at its head and 990 at its tail
  (what the target has), and the query region is the mapped interval itself.
\<close>

theorem padding_counterexample:
  "doAlignment_regions 128000 6000
     \<lparr> qId = ''q'', qStartPos = 20, qEndPos = 5020, strand = FWD, refId = ''t'',
       rStartPos = 10, rEndPos = 5010, mashmap_estimated_identity = () \<rparr>
   = Inr \<lparr> ref_fetch_begin = 0, ref_fetch_end = 6000, ref_seq_shift = 10, refLen = 5000,
           query_begin = 20, queryLen = 5000 \<rparr>"
  by (simp add: doAlignment_regions_def head_padding_def tail_padding_def to_uint64_def
      to_int64_def int_sub_def)

text \<open>
  C4, amended: for a mapping with \<open>0 \<le> rStartPos \<le> rEndPos \<le> ref_size\<close> and
  \<open>0 \<le> qStartPos \<le> qEndPos\<close>, \<^verbatim>\<open>doAlignment\<close> extends the target interval at its head by
  the smaller of \<^verbatim>\<open>wflign_max_len_minor\<close> and \<open>rStartPos\<close>, and at its tail by the smaller
  of \<^verbatim>\<open>wflign_max_len_minor\<close> and \<open>ref_size - rEndPos\<close>; the query region is
  \<open>[qStartPos, qEndPos)\<close>, without padding.
\<close>

theorem padding_of_the_target_only:
  "0 \<le> rStartPos r \<and> rStartPos r \<le> rEndPos r \<and> rEndPos r \<le> ref_size
     \<and> rEndPos r < 2 ^ 31 \<and> ref_size < 2 ^ 62
     \<and> 0 \<le> qStartPos r \<and> qStartPos r \<le> qEndPos r \<and> qEndPos r < 2 ^ 31
     \<and> 0 \<le> m \<and> m < 2 ^ 62
   \<longrightarrow> doAlignment_regions m ref_size r
       = Inr \<lparr> ref_fetch_begin = rStartPos r - min m (rStartPos r),
               ref_fetch_end = rEndPos r + min m (ref_size - rEndPos r),
               ref_seq_shift = min m (rStartPos r),
               refLen = rEndPos r - rStartPos r,
               query_begin = qStartPos r,
               queryLen = qEndPos r - qStartPos r \<rparr>"
proof
  assume a: "0 \<le> rStartPos r \<and> rStartPos r \<le> rEndPos r \<and> rEndPos r \<le> ref_size
     \<and> rEndPos r < 2 ^ 31 \<and> ref_size < 2 ^ 62
     \<and> 0 \<le> qStartPos r \<and> qStartPos r \<le> qEndPos r \<and> qEndPos r < 2 ^ 31
     \<and> 0 \<le> m \<and> m < 2 ^ 62"
  then have hp: "head_padding m (rStartPos r) = min m (rStartPos r)"
    by (intro head_padding_min) simp_all
  from a have tp: "tail_padding m ref_size (rEndPos r) = min m (ref_size - rEndPos r)"
    by (intro tail_padding_min) simp_all
  from a have us: "to_uint64 (rStartPos r) = rStartPos r"
    and ue: "to_uint64 (rEndPos r) = rEndPos r"
    by (simp_all add: to_uint64_id)
  from a have b: "to_int64 (to_uint64 (rStartPos r - min m (rStartPos r)))
      = rStartPos r - min m (rStartPos r)"
    by (simp add: to_uint64_id to_int64_id min_def)
  from a have e: "to_int64 (to_uint64 (rEndPos r + min m (ref_size - rEndPos r)))
      = rEndPos r + min m (ref_size - rEndPos r)"
    by (simp add: to_uint64_id to_int64_id min_def)
  from a have rl: "int_sub (rEndPos r) (rStartPos r) = Inr (rEndPos r - rStartPos r)"
    and ql: "int_sub (qEndPos r) (qStartPos r) = Inr (qEndPos r - qStartPos r)"
    by (simp_all add: int_sub_def)
  show "doAlignment_regions m ref_size r
       = Inr \<lparr> ref_fetch_begin = rStartPos r - min m (rStartPos r),
               ref_fetch_end = rEndPos r + min m (ref_size - rEndPos r),
               ref_seq_shift = min m (rStartPos r),
               refLen = rEndPos r - rStartPos r,
               query_begin = qStartPos r,
               queryLen = qEndPos r - qStartPos r \<rparr>"
    unfolding doAlignment_regions_def Let_def hp tp us ue b e rl ql by simp
qed

theorem padding_of_the_target_only_witness:
  "doAlignment_regions 1000 900000
     \<lparr> qId = ''q'', qStartPos = 0, qEndPos = 50000, strand = REV, refId = ''t'',
       rStartPos = 200000, rEndPos = 250000, mashmap_estimated_identity = () \<rparr>
   = Inr \<lparr> ref_fetch_begin = 199000, ref_fetch_end = 251000, ref_seq_shift = 1000,
           refLen = 50000, query_begin = 0, queryLen = 50000 \<rparr>"
  using padding_of_the_target_only [of
      "\<lparr> qId = ''q'', qStartPos = 0, qEndPos = 50000, strand = REV, refId = ''t'',
         rStartPos = 200000, rEndPos = 250000, mashmap_estimated_identity = () \<rparr>"
      900000 1000]
  by simp

section \<open>Properties of the pipeline\<close>

lemma queue_capacity_value: "queue_capacity = 131072"
  by (simp add: queue_capacity_def)

lemma run_Nil [simp]: "run doAlignment [] s = s"
  by (simp add: run_def)

lemma run_Cons [simp]: "run doAlignment (t # schedule) s = run doAlignment schedule (step doAlignment s t)"
  by (simp add: run_def)

lemma run_snoc: "run doAlignment (schedule @ [t]) s = step doAlignment (run doAlignment schedule s) t"
  by (simp add: run_def)

lemma reader_step_bounded:
  assumes "length (seq_queue s) \<le> queue_capacity"
  shows "length (seq_queue (reader_step s)) \<le> queue_capacity"
    and "paf_queue (reader_step s) = paf_queue s"
  using assms by (auto simp: reader_step_def split: list.splits)

lemma worker_step_bounded:
  assumes "length (seq_queue s) \<le> queue_capacity" and "length (paf_queue s) \<le> queue_capacity"
  shows "length (seq_queue (worker_step doAlignment tid s)) \<le> queue_capacity"
    and "length (paf_queue (worker_step doAlignment tid s)) \<le> queue_capacity"
  using assms by (auto simp: worker_step_def split: worker_pc.splits list.splits)

lemma writer_step_bounded:
  assumes "length (paf_queue s) \<le> queue_capacity"
  shows "seq_queue (writer_step s) = seq_queue s"
    and "length (paf_queue (writer_step s)) \<le> queue_capacity"
  using assms by (auto simp: writer_step_def split: writer_pc.splits list.splits)

lemma step_bounded:
  assumes "length (seq_queue s) \<le> queue_capacity" and "length (paf_queue s) \<le> queue_capacity"
  shows "length (seq_queue (step doAlignment s t)) \<le> queue_capacity
         \<and> length (paf_queue (step doAlignment s t)) \<le> queue_capacity"
proof (cases t)
  case Reader
  with assms show ?thesis by (simp add: reader_step_bounded)
next
  case (Worker tid)
  with assms show ?thesis by (simp add: worker_step_bounded)
next
  case Writer
  with assms show ?thesis by (simp add: writer_step_bounded)
qed

lemma run_bounded:
  assumes "length (seq_queue s) \<le> queue_capacity" and "length (paf_queue s) \<le> queue_capacity"
  shows "length (seq_queue (run doAlignment schedule s)) \<le> queue_capacity
         \<and> length (paf_queue (run doAlignment schedule s)) \<le> queue_capacity"
proof (induction schedule rule: rev_induct)
  case Nil
  with assms show ?case by simp
next
  case (snoc t schedule)
  then show ?case unfolding run_snoc by (intro step_bounded) simp_all
qed

text \<open>As long as there is room, \<open>k\<close> steps of the reader enqueue its next \<open>k\<close> work units.\<close>

lemma reader_fills_queue:
  "k \<le> length (input s) \<Longrightarrow> length (seq_queue s) + k \<le> queue_capacity
     \<Longrightarrow> run doAlignment (replicate k Reader) s
         = s\<lparr>input := drop k (input s), seq_queue := seq_queue s @ take k (input s)\<rparr>"
proof (induction k arbitrary: s)
  case 0
  then show ?case by simp
next
  case (Suc k)
  from Suc.prems obtain q rest where i: "input s = q # rest" by (cases "input s") auto
  let ?s = "s\<lparr>input := rest, seq_queue := seq_queue s @ [q]\<rparr>"
  from Suc.prems i have st: "reader_step s = ?s" by (simp add: reader_step_def)
  from Suc.prems i have "run doAlignment (replicate k Reader) ?s
      = ?s\<lparr>input := drop k (input ?s), seq_queue := seq_queue ?s @ take k (input ?s)\<rparr>"
    by (intro Suc.IH) simp_all
  with i st show ?case by simp
qed

section \<open>Claim C2: the capacity of the queues\<close>

text \<open>
  C2, as stated, fails. The claim: the work queue and the result queue have the fixed
  capacity 65536, so that no reachable state holds more than 65536 enqueued items. The
  capacity in the source is \<^verbatim>\<open>2 << 16\<close>, which is 131072: after 65537 steps of the
  reader, with the workers not yet scheduled, the work queue holds 65537 items.
\<close>

theorem queue_capacity_counterexample:
  "length (seq_queue (run (\<lambda>r. []) (replicate 65537 Reader)
      (launch (replicate 65537 (0 :: nat)) 1))) = 65537
   \<and> \<not> (65537 :: nat) \<le> 65536"
  by (simp add: reader_fills_queue launch_def queue_capacity_value)

text \<open>
  C2, amended: both queues have the fixed capacity \<^verbatim>\<open>2 << 16\<close> = 131072. In every state
  that the pipeline reaches from its launch, under any interleaving of its threads, each
  queue holds at most 131072 items; a push onto a full queue (the reader's onto the work
  queue, a worker's onto the result queue) leaves the state as it is, the thread staying
  at its push, and a push onto a queue with room appends the item.
\<close>

theorem queue_capacity_invariant:
  "queue_capacity = 131072
   \<and> length (seq_queue (run doAlignment schedule (launch work nthreads))) \<le> queue_capacity
   \<and> length (paf_queue (run doAlignment schedule (launch work nthreads))) \<le> queue_capacity
   \<and> (input s \<noteq> [] \<and> length (seq_queue s) = queue_capacity
        \<longrightarrow> step doAlignment s Reader = s)
   \<and> (input s = q # rest \<and> length (seq_queue s) < queue_capacity
        \<longrightarrow> step doAlignment s Reader = s\<lparr>input := rest, seq_queue := seq_queue s @ [q]\<rparr>)
   \<and> (tid < length (workers s) \<and> workers s ! tid = W_Got r \<and> doAlignment r \<noteq> []
        \<and> length (paf_queue s) = queue_capacity
        \<longrightarrow> step doAlignment s (Worker tid) = s)
   \<and> (tid < length (workers s) \<and> workers s ! tid = W_Got r \<and> doAlignment r \<noteq> []
        \<and> length (paf_queue s) < queue_capacity
        \<longrightarrow> step doAlignment s (Worker tid)
            = s\<lparr>paf_queue := paf_queue s @ [doAlignment r],
                 workers := (workers s)[tid := W_Loop]\<rparr>)"
proof (intro conjI impI)
  show "queue_capacity = 131072" by (rule queue_capacity_value)
  have "length (seq_queue (run doAlignment schedule (launch work nthreads))) \<le> queue_capacity
      \<and> length (paf_queue (run doAlignment schedule (launch work nthreads))) \<le> queue_capacity"
    by (intro run_bounded) (simp_all add: launch_def)
  then show "length (seq_queue (run doAlignment schedule (launch work nthreads))) \<le> queue_capacity"
    and "length (paf_queue (run doAlignment schedule (launch work nthreads))) \<le> queue_capacity"
    by simp_all
next
  assume "input s \<noteq> [] \<and> length (seq_queue s) = queue_capacity"
  then show "step doAlignment s Reader = s"
    by (cases "input s") (simp_all add: reader_step_def)
next
  assume "input s = q # rest \<and> length (seq_queue s) < queue_capacity"
  then show "step doAlignment s Reader = s\<lparr>input := rest, seq_queue := seq_queue s @ [q]\<rparr>"
    by (simp add: reader_step_def)
next
  assume "tid < length (workers s) \<and> workers s ! tid = W_Got r \<and> doAlignment r \<noteq> []
        \<and> length (paf_queue s) = queue_capacity"
  then show "step doAlignment s (Worker tid) = s"
    by (simp add: worker_step_def)
next
  assume "tid < length (workers s) \<and> workers s ! tid = W_Got r \<and> doAlignment r \<noteq> []
        \<and> length (paf_queue s) < queue_capacity"
  then show "step doAlignment s (Worker tid)
            = s\<lparr>paf_queue := paf_queue s @ [doAlignment r],
                 workers := (workers s)[tid := W_Loop]\<rparr>"
    by (simp add: worker_step_def)
qed

theorem queue_capacity_invariant_witness:
  "step (\<lambda>r :: nat. ''paf'')
     \<lparr> input = [1], seq_queue = replicate 131072 0, paf_queue = [], reader_done = False,
       working = [True], workers = [W_Start], writer = Wr_Loop, outstrm = [] \<rparr> Reader
   = \<lparr> input = [1], seq_queue = replicate 131072 0, paf_queue = [], reader_done = False,
       working = [True], workers = [W_Start], writer = Wr_Loop, outstrm = [] \<rparr>
   \<and> step (\<lambda>r :: nat. ''paf'')
     \<lparr> input = [], seq_queue = [], paf_queue = replicate 131072 ''paf'', reader_done = True,
       working = [True], workers = [W_Got 1], writer = Wr_Loop, outstrm = [] \<rparr> (Worker 0)
   = \<lparr> input = [], seq_queue = [], paf_queue = replicate 131072 ''paf'', reader_done = True,
       working = [True], workers = [W_Got 1], writer = Wr_Loop, outstrm = [] \<rparr>
   \<and> step (\<lambda>r :: nat. ''paf'')
     \<lparr> input = [1], seq_queue = [0], paf_queue = [], reader_done = False,
       working = [True], workers = [W_Got 2], writer = Wr_Loop, outstrm = [] \<rparr> Reader
   = \<lparr> input = [], seq_queue = [0, 1], paf_queue = [], reader_done = False,
       working = [True], workers = [W_Got 2], writer = Wr_Loop, outstrm = [] \<rparr>
   \<and> step (\<lambda>r :: nat. ''paf'')
     \<lparr> input = [1], seq_queue = [0], paf_queue = [], reader_done = False,
       working = [True], workers = [W_Got 2], writer = Wr_Loop, outstrm = [] \<rparr> (Worker 0)
   = \<lparr> input = [1], seq_queue = [0], paf_queue = [''paf''], reader_done = False,
       working = [True], workers = [W_Loop], writer = Wr_Loop, outstrm = [] \<rparr>"
  using queue_capacity_invariant [of "\<lambda>r :: nat. ''paf''" "[]" "[]" 0
      "\<lparr> input = [1], seq_queue = replicate 131072 0, paf_queue = [], reader_done = False,
         working = [True], workers = [W_Start], writer = Wr_Loop, outstrm = [] \<rparr>" 1 "[]" 0 1]
    queue_capacity_invariant [of "\<lambda>r :: nat. ''paf''" "[]" "[]" 0
      "\<lparr> input = [], seq_queue = [], paf_queue = replicate 131072 ''paf'', reader_done = True,
         working = [True], workers = [W_Got 1], writer = Wr_Loop, outstrm = [] \<rparr>" 1 "[]" 0 1]
    queue_capacity_invariant [of "\<lambda>r :: nat. ''paf''" "[]" "[]" 0
      "\<lparr> input = [1], seq_queue = [0], paf_queue = [], reader_done = False,
         working = [True], workers = [W_Got 2], writer = Wr_Loop, outstrm = [] \<rparr>" 1 "[]" 0 2]
  by simp

section \<open>The flags at shutdown\<close>

lemma shutdown_inv_launch: "shutdown_inv (launch work nthreads)"
  by (simp add: shutdown_inv_def launch_def)

lemma shutdown_inv_reader: "shutdown_inv s \<Longrightarrow> shutdown_inv (reader_step s)"
  by (auto simp: shutdown_inv_def reader_step_def split: list.splits)

lemma shutdown_inv_worker: "shutdown_inv s \<Longrightarrow> shutdown_inv (worker_step doAlignment tid s)"
  unfolding shutdown_inv_def worker_step_def
  by (auto simp: nth_list_update split: worker_pc.splits list.splits)

lemma shutdown_inv_writer: "shutdown_inv s \<Longrightarrow> shutdown_inv (writer_step s)"
  unfolding shutdown_inv_def writer_step_def
  by (auto simp: less_Suc_eq split: writer_pc.splits list.splits)

lemma shutdown_inv_step: "shutdown_inv s \<Longrightarrow> shutdown_inv (step doAlignment s t)"
  by (cases t) (simp_all add: shutdown_inv_reader shutdown_inv_worker shutdown_inv_writer)

lemma shutdown_inv_run: "shutdown_inv s \<Longrightarrow> shutdown_inv (run doAlignment schedule s)"
  by (induction schedule rule: rev_induct) (simp_all add: run_snoc shutdown_inv_step)

text \<open>
  The parts of the shutdown order that hold under every interleaving: a worker has left its
  loop only after \<^verbatim>\<open>reader_done\<close> was set, and the writer has left its loop only after every
  worker had finished and cleared its flag.
\<close>

lemma worker_leaves_after_reader_done:
  assumes "tid < length (workers (run doAlignment schedule (launch work nthreads)))"
    and "workers (run doAlignment schedule (launch work nthreads)) ! tid = W_Done"
  shows "reader_done (run doAlignment schedule (launch work nthreads))"
  using shutdown_inv_run [OF shutdown_inv_launch, of doAlignment schedule work nthreads] assms
  unfolding shutdown_inv_def by blast

lemma writer_leaves_after_workers:
  assumes "writer (run doAlignment schedule (launch work nthreads)) = Wr_Done"
    and "tid < length (workers (run doAlignment schedule (launch work nthreads)))"
  shows "workers (run doAlignment schedule (launch work nthreads)) ! tid = W_Done
         \<and> \<not> working (run doAlignment schedule (launch work nthreads)) ! tid"
  using shutdown_inv_run [OF shutdown_inv_launch, of doAlignment schedule work nthreads] assms
  unfolding shutdown_inv_def by blast


section \<open>Claim C7: the order of shutdown\<close>

text \<open>
  C7: a worker leaves its loop only when the work queue is empty and \<^verbatim>\<open>reader_done\<close> is
  set, and the writer only when the result queue is empty and every worker is idle, so that
  no result is left unwritten. The flags are as the claim says (the two lemmas above); the
  queues are not, and the code breaks the claim: each thread tests its queue first
  (\<^verbatim>\<open>try_pop\<close>) and the flag afterwards, and the other threads run in between.
  First schedule, one worker and one work unit: the worker finds the work queue empty; the
  reader pushes the work unit and sets \<^verbatim>\<open>reader_done\<close>; the worker reads the flag and
  leaves; the writer finds nothing and leaves. Every thread has finished, the work unit is
  still in the work queue and nothing has been written.
  Second schedule: the writer finds the result queue empty; the worker pushes its result,
  leaves its loop and clears its flag; the writer reads the flag and leaves. The result is
  still in the result queue and nothing has been written.
\<close>

theorem shutdown_loses_work:
  "run (\<lambda>r :: nat. ''paf'')
     [Worker 0, Worker 0, Reader, Reader, Worker 0, Worker 0, Writer, Writer, Writer]
     (launch [7] 1)
   = \<lparr> input = [], seq_queue = [7], paf_queue = [], reader_done = True,
       working = [False], workers = [W_Done], writer = Wr_Done, outstrm = [] \<rparr>
   \<and> run (\<lambda>r :: nat. ''paf'')
     [Worker 0, Reader, Reader, Worker 0, Writer, Worker 0, Worker 0, Worker 0, Worker 0,
      Writer, Writer]
     (launch [7] 1)
   = \<lparr> input = [], seq_queue = [], paf_queue = [''paf''], reader_done = True,
       working = [False], workers = [W_Done], writer = Wr_Done, outstrm = [] \<rparr>"
  by (simp add: launch_def reader_step_def worker_step_def writer_step_def queue_capacity_value)


end
